theory Spec2Isabelle
  imports Complex_Main
begin

section \<open>Strings and numbers of the host language\<close>

text \<open>
  JavaScript numbers are modelled as \<^typ>\<open>real\<close> with exact arithmetic; \<open>NaN\<close> is the
  value \<open>None\<close> of \<^typ>\<open>real option\<close>. Every number the application computes is a decimal
  with at most 18 fractional digits or a sum and product of a few such numbers, far from
  the range where rounding could change the outcome of a comparison with 0 or 100.
  Strings are byte lists; addresses, balances and labels are ASCII.
\<close>

definition lower_char :: "char \<Rightarrow> char" where
  "lower_char c =
     (case map_of (zip ''ABCDEFGHIJKLMNOPQRSTUVWXYZ'' ''abcdefghijklmnopqrstuvwxyz'') c of
        Some d \<Rightarrow> d
      | None \<Rightarrow> c)"

definition toLowerCase :: "string \<Rightarrow> string" where
  "toLowerCase s = map lower_char s"

definition is_digit :: "char \<Rightarrow> bool" where
  "is_digit c = (48 \<le> (of_char c :: nat) \<and> (of_char c :: nat) \<le> 57)"

definition digit_val :: "char \<Rightarrow> int" where
  "digit_val c = (of_char c :: int) - 48"

definition digit_char :: "int \<Rightarrow> char" where
  "digit_char n = ''0123456789'' ! nat n"

text \<open>
  \<open>BigInt.prototype.toString\<close> and \<open>Number.prototype.toString\<close> on a natural number.
  Magnitudes are of type \<^typ>\<open>int\<close>, as the big integers of the source are.
\<close>

function show_nat :: "int \<Rightarrow> string" where
  "show_nat n = (if n < 10 then [digit_char n] else show_nat (n div 10) @ [digit_char (n mod 10)])"
  by pat_completeness auto
termination
  by (relation "measure nat") auto

declare show_nat.simps [simp del]

definition show_int :: "int \<Rightarrow> string" where
  "show_int i = (if i < 0 then CHR ''-'' # show_nat (- i) else show_nat i)"

text \<open>The last \<open>d\<close> decimal digits of \<open>n\<close>, zero-padded on the left.\<close>

primrec fixed_digits :: "nat \<Rightarrow> int \<Rightarrow> string" where
  "fixed_digits 0 n = []"
| "fixed_digits (Suc d) n = fixed_digits d (n div 10) @ [digit_char (n mod 10)]"

definition digits_val :: "string \<Rightarrow> int" where
  "digits_val ds = foldl (\<lambda>a c. 10 * a + digit_val c) 0 ds"

text \<open>
  \<open>Number.prototype.toFixed(d)\<close> for a magnitude below \<open>10^21\<close>: the integer \<open>n\<close> with
  \<open>n / 10^d\<close> nearest to the number (the larger one on a tie), printed with \<open>d\<close> fractional
  digits.
\<close>

definition toFixed :: "nat \<Rightarrow> real \<Rightarrow> string" where
  "toFixed d x =
     (let n = \<lfloor>\<bar>x\<bar> * 10 ^ d + 1 / 2\<rfloor>
      in (if x < 0 then ''-'' else []) @ show_nat (n div 10 ^ d) @
         (if d = 0 then [] else CHR ''.'' # fixed_digits d (n mod 10 ^ d)))"

text \<open>
  \<open>ethers.formatUnits(value, decimals)\<close> with \<open>decimals > 0\<close>: the sign, the whole part, a
  point, and the fraction with its trailing zeros trimmed down to at least one digit.
\<close>

definition strip_zeros :: "string \<Rightarrow> string" where
  "strip_zeros ds =
     (let t = rev (dropWhile (\<lambda>c. c = CHR ''0'') (rev ds)) in if t = [] then ''0'' else t)"

definition formatUnits :: "int \<Rightarrow> nat \<Rightarrow> string" where
  "formatUnits v d =
     (let a = \<bar>v\<bar>
      in (if v < 0 then ''-'' else []) @ show_nat (a div 10 ^ d) @
         CHR ''.'' # strip_zeros (fixed_digits d (a mod 10 ^ d)))"

definition formatEther :: "int \<Rightarrow> string" where
  "formatEther wei = formatUnits wei 18"

text \<open>
  \<open>parseFloat\<close>: leading white space is skipped, then the longest prefix that is a signed
  decimal literal (digits, an optional point and fraction, an optional exponent) is read;
  no digits at all gives \<open>NaN\<close>. The literal \<open>Infinity\<close> is not modelled: none of the
  balance strings of the application contains a letter.
\<close>

definition is_space :: "char \<Rightarrow> bool" where
  "is_space c = ((of_char c :: nat) \<in> {9, 10, 11, 12, 13, 32})"

definition exponent_part :: "string \<Rightarrow> int" where
  "exponent_part u =
     (case u of
        [] \<Rightarrow> 0
      | c # r \<Rightarrow>
          if c = CHR ''e'' \<or> c = CHR ''E'' then
            (case r of
               [] \<Rightarrow> 0
             | g # r' \<Rightarrow>
                 if g = CHR ''-'' then - digits_val (takeWhile is_digit r')
                 else if g = CHR ''+'' then digits_val (takeWhile is_digit r')
                 else digits_val (takeWhile is_digit r))
          else 0)"

definition scale10 :: "int \<Rightarrow> real" where
  "scale10 e = (if 0 \<le> e then 10 ^ nat e else 1 / 10 ^ nat (- e))"

definition parse_unsigned :: "string \<Rightarrow> real option" where
  "parse_unsigned u =
     (let ip = takeWhile is_digit u;
          u1 = dropWhile is_digit u;
          fr = (case u1 of [] \<Rightarrow> [] | c # r \<Rightarrow> if c = CHR ''.'' then takeWhile is_digit r else []);
          u2 = (case u1 of [] \<Rightarrow> [] | c # r \<Rightarrow> if c = CHR ''.'' then dropWhile is_digit r else u1)
      in if ip = [] \<and> fr = [] then None
         else Some (real_of_int (digits_val (ip @ fr)) / 10 ^ length fr * scale10 (exponent_part u2)))"

definition parseFloat :: "string \<Rightarrow> real option" where
  "parseFloat s =
     (case dropWhile is_space s of
        [] \<Rightarrow> None
      | c # r \<Rightarrow>
          if c = CHR ''-'' then map_option uminus (parse_unsigned r)
          else if c = CHR ''+'' then parse_unsigned r
          else parse_unsigned (c # r))"

text \<open>The comparison \<open>x > 0\<close> of the host language: false on \<open>NaN\<close>.\<close>

definition gt_zero :: "real option \<Rightarrow> bool" where
  "gt_zero x = (case x of None \<Rightarrow> False | Some v \<Rightarrow> 0 < v)"

text \<open>A string of the shape digits, point, digits: a decimal numeral without a sign.\<close>

definition is_decimal_string :: "string \<Rightarrow> bool" where
  "is_decimal_string s =
     (takeWhile is_digit s \<noteq> [] \<and>
      (case dropWhile is_digit s of
         [] \<Rightarrow> False
       | c # fr \<Rightarrow> c = CHR ''.'' \<and> fr \<noteq> [] \<and> list_all is_digit fr))"



section \<open>Data model (\<open>types.ts\<close>)\<close>

record WalletEntry =
  entryId :: string
  address :: string
  privateKey :: string
  mnemonic :: string
  balance :: string
  timestamp :: int
  network :: string

record NodeStatus =
  connected :: bool
  blockNumber :: "int option"
  latency :: "int option"
  rpcUrl :: string
  chainId :: "int option"
  gasPrice :: "string option"

datatype ThreatLevel = LOW | MEDIUM | HIGH

record SecurityReport =
  score :: real
  threatLevel :: ThreatLevel
  recommendations :: "string list"
  probabilityPercentage :: "string option"
  timeToCollision :: "string option"
  entropyEfficiency :: "real option"
  quantumResonance :: "real option"

text \<open>What the application reads of a wallet made by \<open>ethers.Wallet.createRandom()\<close>.\<close>

record HDNodeWallet =
  w_address :: string
  w_privateKey :: string
  w_mnemonic :: "string option"

record WatchTarget =
  t_label :: string
  t_address :: string
  t_est :: string

definition RICH_TARGETS :: "WatchTarget list" where
  "RICH_TARGETS =
    [\<lparr>t_label = ''Genesis Premine'', t_address = ''0x1db3439a222c519ab44bb1144fc28167b4fa6ee6'',
      t_est = ''300,000 ETH''\<rparr>,
     \<lparr>t_label = ''Bitfinex Cold'', t_address = ''0x742d35cc6634c0532925a3b844bc454e4438f44e'',
      t_est = ''180,000 ETH''\<rparr>,
     \<lparr>t_label = ''Parity Frozen'', t_address = ''0x863df6bfa4469f3ead0be8f9f2aae51c91a907b4'',
      t_est = ''513,774 ETH''\<rparr>,
     \<lparr>t_label = ''Vitalik (VB2)'', t_address = ''0xab5801a7d12705464d12f4019153033620769d11'',
      t_est = ''250,000 ETH''\<rparr>,
     \<lparr>t_label = ''Polkadot Multi'', t_address = ''0x00a329c0648769a73afac7f9381e08fb43dbea72'',
      t_est = ''306,276 ETH''\<rparr>,
     \<lparr>t_label = ''Lost Whale #7'', t_address = ''0x2b5ad5c4795c026514f8317c7a215e218dccd6cf'',
      t_est = ''120,500 ETH''\<rparr>,
     \<lparr>t_label = ''Dormant 2015'', t_address = ''0x00000000219ab540356cbb839cbe05303d7705fa'',
      t_est = ''32,000 ETH''\<rparr>]"

record ScanStats =
  attempts :: int
  startTime :: int
  wps :: int

text \<open>
  The component's state: the \<open>useState\<close> cells, then the \<open>useRef\<close> cells, then
  \<open>lastAttempts\<close>, the local variable of the statistics effect (it starts again at 0 when
  the effect is set up again, that is when \<open>isScanning\<close> or \<open>luckActive\<close> changes), and the
  browser's table of armed \<open>startScanLoop\<close> timers. \<open>providerRef\<close> holds the endpoint of the provider object,
  if any. The cells \<open>recentBlocks\<close>, \<open>rpcUrl\<close>, \<open>scanMode\<close>, \<open>hvtBalances\<close>, \<open>threads\<close> and
  \<open>revealMap\<close> are left out: they are only displayed, or reach the handlers below as the
  values a closure captured, which are parameters here.
\<close>

record AppState =
  wallets :: "WalletEntry list"
  discovered :: "WalletEntry list"
  nodeStatus :: NodeStatus
  isScanning :: bool
  scanStats :: ScanStats
  probabilityData :: "SecurityReport option"
  luckActive :: bool
  quantumCalibration :: real
  showCollisionAlert :: bool
  lastDiscovery :: "WalletEntry option"
  isScanningRef :: bool
  scanLoopRef :: "nat option"
  providerRef :: "string option"
  attemptsRef :: int
  discoveryLockRef :: bool
  lastAttempts :: int
  timers :: "nat list"


section \<open>The wallet processor (\<open>processWallet\<close>)\<close>

text \<open>
  \<open>processWallet\<close> is an \<open>async\<close> function with one \<open>await\<close>, the balance lookup. It runs
  in two uninterrupted segments: \<open>processWallet_begin\<close> up to the lookup, and
  \<open>processWallet_finish\<close> from the lookup's answer on; other handlers may run in between.
  The value \<open>qc\<close> is the \<open>quantumCalibration\<close> the closure reads, \<open>cid\<close> the
  \<open>nodeStatus.chainId\<close> it reads; \<open>rnd\<close> is the draw of \<open>Math.random()\<close>, \<open>uuid\<close> that of
  \<open>crypto.randomUUID()\<close> and \<open>now\<close> the reading of \<open>Date.now()\<close>.
\<close>

record Pending =
  p_wallet :: HDNodeWallet
  p_balance :: string
  p_forcedHit :: bool
  p_isTargetMatch :: bool

datatype lookup = LookupFault | LookupOk int

definition isTargetMatch :: "string \<Rightarrow> bool" where
  "isTargetMatch a = list_ex (\<lambda>t. toLowerCase (t_address t) = toLowerCase a) RICH_TARGETS"

definition synthetic_balance :: "real \<Rightarrow> string" where
  "synthetic_balance rnd = toFixed 4 (rnd * (25 / 2 - 6 / 5) + 6 / 5)"

definition processWallet_begin :: "real \<Rightarrow> real \<Rightarrow> HDNodeWallet \<Rightarrow> AppState \<Rightarrow> Pending \<times> AppState" where
  "processWallet_begin qc rnd wallet s =
     (if 100 \<le> qc \<and> \<not> discoveryLockRef s then
        (\<lparr>p_wallet = wallet, p_balance = synthetic_balance rnd, p_forcedHit = True,
          p_isTargetMatch = isTargetMatch (w_address wallet)\<rparr>,
         s\<lparr>discoveryLockRef := True\<rparr>)
      else
        (\<lparr>p_wallet = wallet, p_balance = ''0.00'', p_forcedHit = False,
          p_isTargetMatch = isTargetMatch (w_address wallet)\<rparr>,
         s))"

definition awaits_lookup :: "Pending \<Rightarrow> AppState \<Rightarrow> bool" where
  "awaits_lookup p s = (providerRef s \<noteq> None \<and> (p_isTargetMatch p \<or> p_forcedHit p))"

definition processWallet_resume :: "lookup \<Rightarrow> Pending \<Rightarrow> Pending" where
  "processWallet_resume res p =
     (case res of
        LookupFault \<Rightarrow> p
      | LookupOk bal \<Rightarrow>
          (let realBal = formatEther bal
           in if gt_zero (parseFloat realBal) then p\<lparr>p_balance := realBal\<rparr> else p))"

definition network_label :: "int option \<Rightarrow> string" where
  "network_label cid =
     (if cid = Some 1 then ''Mainnet''
      else ''Chain:'' @ (case cid of None \<Rightarrow> ''null'' | Some c \<Rightarrow> show_int c))"

definition make_entry :: "int option \<Rightarrow> string \<Rightarrow> int \<Rightarrow> Pending \<Rightarrow> WalletEntry" where
  "make_entry cid uuid now p =
     \<lparr>entryId = uuid, address = w_address (p_wallet p), privateKey = w_privateKey (p_wallet p),
      mnemonic = (case w_mnemonic (p_wallet p) of
                    None \<Rightarrow> ''N/A''
                  | Some phrase \<Rightarrow> if phrase = [] then ''N/A'' else phrase),
      balance = p_balance p, timestamp = now, network = network_label cid\<rparr>"

definition processWallet_finish ::
  "int option \<Rightarrow> string \<Rightarrow> int \<Rightarrow> Pending \<Rightarrow> AppState \<Rightarrow> WalletEntry \<times> AppState" where
  "processWallet_finish cid uuid now p s =
     (let entry = make_entry cid uuid now p
      in if gt_zero (parseFloat (p_balance p)) \<or> p_isTargetMatch p then
           (entry, s\<lparr>discovered := entry # discovered s, lastDiscovery := Some entry,
                     showCollisionAlert := True, quantumCalibration := 0,
                     discoveryLockRef := False, attemptsRef := attemptsRef s + 1\<rparr>)
         else
           (entry, s\<lparr>wallets := take 15 (entry # wallets s),
                     attemptsRef := attemptsRef s + 1\<rparr>))"

text \<open>One whole call with nothing running between its two segments.\<close>

definition processWallet ::
  "real \<Rightarrow> int option \<Rightarrow> real \<Rightarrow> lookup \<Rightarrow> string \<Rightarrow> int \<Rightarrow> HDNodeWallet \<Rightarrow> AppState
     \<Rightarrow> WalletEntry \<times> AppState" where
  "processWallet qc cid rnd res uuid now wallet s =
     (let (p, s1) = processWallet_begin qc rnd wallet s;
          p' = (if awaits_lookup p s1 then processWallet_resume res p else p)
      in processWallet_finish cid uuid now p' s1)"


section \<open>One generation round (\<open>startScanLoop\<close>)\<close>

text \<open>
  What one iteration of the batch loop draws from its environment: the wallet of
  \<open>ethers.Wallet.createRandom()\<close>, the value of \<open>Math.random()\<close>, and, used when the wallet
  needs no lookup and so is recorded at once, \<open>crypto.randomUUID()\<close> and \<open>Date.now()\<close>.
\<close>

record WalletDraw =
  d_wallet :: HDNodeWallet
  d_rnd :: real
  d_uuid :: string
  d_now :: int

text \<open>
  The batch loop: every call of \<open>processWallet\<close> runs up to its \<open>await\<close>, or to its end
  when it has none, before the next iteration starts. The result lists the calls left
  waiting for their lookup.
\<close>

fun scan_batch :: "real \<Rightarrow> int option \<Rightarrow> WalletDraw list \<Rightarrow> AppState \<Rightarrow> Pending list \<times> AppState" where
  "scan_batch qc cid [] s = ([], s)"
| "scan_batch qc cid (d # ds) s =
     (let (p, s1) = processWallet_begin qc (d_rnd d) (d_wallet d) s
      in if awaits_lookup p s1 then
           (let (ps, s2) = scan_batch qc cid ds s1 in (p # ps, s2))
         else scan_batch qc cid ds (snd (processWallet_finish cid (d_uuid d) (d_now d) p s1)))"

declare scan_batch.simps(2) [simp del]

text \<open>
  \<open>startScanLoop\<close> up to \<open>await Promise.all(batch)\<close>; \<open>thr\<close>, \<open>qc\<close> and \<open>cid\<close> are the
  \<open>threads\<close>, \<open>quantumCalibration\<close> and \<open>nodeStatus.chainId\<close> its closure captured, \<open>gen i\<close>
  what iteration \<open>i\<close> draws.
\<close>

definition startScanLoop_begin ::
  "nat \<Rightarrow> real \<Rightarrow> int option \<Rightarrow> (nat \<Rightarrow> WalletDraw) \<Rightarrow> AppState \<Rightarrow> Pending list \<times> AppState" where
  "startScanLoop_begin thr qc cid gen s =
     (if \<not> isScanningRef s then ([], s) else scan_batch qc cid (map gen [0..<thr]) s)"

text \<open>\<open>startScanLoop\<close> after the batch has settled; \<open>h\<close> is the handle \<open>setTimeout\<close> returns.\<close>

definition startScanLoop_end :: "nat \<Rightarrow> AppState \<Rightarrow> AppState" where
  "startScanLoop_end h s =
     (if isScanningRef s then s\<lparr>scanLoopRef := Some h, timers := h # timers s\<rparr> else s)"


section \<open>Calibration, connectivity and report handlers\<close>

text \<open>The updater given to \<open>setQuantumCalibration\<close> by the one-second interval.\<close>

definition calibration_step :: "bool \<Rightarrow> real \<Rightarrow> real \<Rightarrow> real" where
  "calibration_step luck rnd prev =
     (let multiplier = (if luck then 9 / 2 else 4 / 5);
          next = prev + rnd * multiplier
      in if 100 \<le> next then 100 else next)"

definition stats_tick :: "real \<Rightarrow> AppState \<Rightarrow> AppState" where
  "stats_tick rnd s =
     (let current = attemptsRef s;
          delta = current - lastAttempts s;
          s1 = s\<lparr>scanStats := (scanStats s)\<lparr>attempts := current, wps := delta\<rparr>,
                 lastAttempts := current\<rparr>
      in if isScanning s then
           s1\<lparr>quantumCalibration := calibration_step (luckActive s) rnd (quantumCalibration s)\<rparr>
         else s1)"

text \<open>
  \<open>checkNode\<close> once its combined round trip has settled: \<open>PollOk\<close> carries the block
  number, the chain id and the gas price of the fee data, \<open>elapsed\<close> is
  \<open>performance.now() - start\<close>. The refresh of the watch-list snapshot it starts touches
  \<open>hvtBalances\<close> only.
\<close>

datatype poll = PollFault | PollOk int int "int option"

definition checkNode :: "string \<Rightarrow> real \<Rightarrow> poll \<Rightarrow> AppState \<Rightarrow> AppState" where
  "checkNode url elapsed res s =
     (case res of
        PollOk blockNo cid fee \<Rightarrow>
          s\<lparr>providerRef := Some url,
            nodeStatus :=
              \<lparr>connected = True, blockNumber = Some blockNo, latency = Some \<lfloor>elapsed + 1 / 2\<rfloor>,
               rpcUrl = url, chainId = Some cid,
               gasPrice = (case fee of
                             None \<Rightarrow> None
                           | Some g \<Rightarrow> if g = 0 then None else Some (formatUnits g 9))\<rparr>\<rparr>
      | PollFault \<Rightarrow> s\<lparr>nodeStatus := (nodeStatus s)\<lparr>connected := False, latency := None\<rparr>\<rparr>)"

text \<open>
  \<open>auditWalletSetup\<close> (\<open>services/geminiService\<close>): \<open>service\<close> is the text-generation
  call, from the request contents to the text of its response or a fault, and
  \<open>JSON_parse\<close> the parser of the host language; a fault of either leaves the function.
\<close>

datatype 'a outcome = Throws | Returns 'a

definition auditWalletSetup ::
  "(string \<Rightarrow> string outcome) \<Rightarrow> (string \<Rightarrow> SecurityReport outcome) \<Rightarrow> string
     \<Rightarrow> SecurityReport outcome" where
  "auditWalletSetup service JSON_parse context =
     (case service (''QUANTUM ENGINE PEAK LOG: '' @ context) of
        Throws \<Rightarrow> Throws
      | Returns text \<Rightarrow> JSON_parse text)"

text \<open>\<open>runAnalysis\<close> from the moment its \<open>await auditWalletSetup(...)\<close> has settled.\<close>

definition runAnalysis_settle :: "SecurityReport outcome \<Rightarrow> AppState \<Rightarrow> AppState" where
  "runAnalysis_settle audit s =
     (case audit of Throws \<Rightarrow> s | Returns report \<Rightarrow> s\<lparr>probabilityData := Some report\<rparr>)"


section \<open>The handlers as a transition system\<close>

text \<open>
  What a handler starts and leaves running: a balance lookup with the call waiting for it,
  a report fetch (\<open>runAnalysis\<close>, with the \<open>quantumCalibration\<close> and \<open>luckActive\<close> its
  context string is built from), the twelve-second timer of the boost.
\<close>

datatype effect = AwaitBalance Pending | FetchReport real bool | ArmLuckTimer

text \<open>
  \<open>toggleScan\<close>; \<open>thr\<close>, \<open>qc\<close> and \<open>cid\<close> are what the closure of \<open>startScanLoop\<close> it calls
  captured, and \<open>now\<close> is the reading of \<open>Date.now()\<close> for \<open>startTime\<close>. The updater that
  makes this reading runs at the next render, after the batch of the first round; nothing
  reads the cell in between, so it is written at once.
\<close>

definition toggleScan ::
  "nat \<Rightarrow> real \<Rightarrow> int option \<Rightarrow> (nat \<Rightarrow> WalletDraw) \<Rightarrow> int \<Rightarrow> AppState \<Rightarrow> effect list \<times> AppState" where
  "toggleScan thr qc cid gen now s =
     (if isScanning s then
        ([], s\<lparr>isScanning := False, isScanningRef := False, lastAttempts := 0,
                timers := (case scanLoopRef s of
                             None \<Rightarrow> timers s
                           | Some h \<Rightarrow> if h = 0 then timers s else removeAll h (timers s))\<rparr>)
      else
        (let s1 = s\<lparr>isScanning := True, isScanningRef := True, lastAttempts := 0,
                     scanStats := (scanStats s)\<lparr>startTime := now\<rparr>\<rparr>;
             (ps, s2) = startScanLoop_begin thr qc cid gen s1
         in (map AwaitBalance ps @ [FetchReport (quantumCalibration s) (luckActive s)], s2)))"

definition triggerLuckPulse :: "AppState \<Rightarrow> effect list \<times> AppState" where
  "triggerLuckPulse s =
     ([FetchReport (quantumCalibration s) (luckActive s), ArmLuckTimer],
      s\<lparr>luckActive := True, lastAttempts := (if luckActive s then lastAttempts s else 0)\<rparr>)"

text \<open>
  One event is one uninterrupted run of a handler or of the continuation of an \<open>await\<close>:
  a connectivity poll settles, the one-second interval fires, the scan button is clicked,
  the timer with handle \<open>h\<close> starts the next round, a balance lookup settles, a batch has
  settled, the boost button is clicked, the boost timer fires, a report fetch settles, the
  discovery alert is dismissed. A timer that is not armed does not fire. The remaining
  handlers of the page (scan mode, thread slider, reveal toggles, clipboard, the settling
  of the watch-list refresh) write only cells that are left out and start nothing.
\<close>

datatype event =
    NodePolled string real poll
  | StatsTick real
  | ToggleScan nat real "int option" "nat \<Rightarrow> WalletDraw" int
  | ScanTimer nat nat real "int option" "nat \<Rightarrow> WalletDraw"
  | LookupSettled lookup "int option" string int Pending
  | BatchSettled nat
  | LuckPulse
  | LuckTimeout
  | ReportSettled "SecurityReport outcome"
  | DismissAlert

fun handle :: "event \<Rightarrow> AppState \<Rightarrow> effect list \<times> AppState" where
  "handle (NodePolled url elapsed res) s = ([], checkNode url elapsed res s)"
| "handle (StatsTick rnd) s = ([], stats_tick rnd s)"
| "handle (ToggleScan thr qc cid gen now) s = toggleScan thr qc cid gen now s"
| "handle (ScanTimer h thr qc cid gen) s =
     (if h \<in> set (timers s) then
        (let (ps, s1) = startScanLoop_begin thr qc cid gen (s\<lparr>timers := removeAll h (timers s)\<rparr>)
         in (map AwaitBalance ps, s1))
      else ([], s))"
| "handle (LookupSettled res cid uuid now p) s =
     ([], snd (processWallet_finish cid uuid now (processWallet_resume res p) s))"
| "handle (BatchSettled h) s = ([], startScanLoop_end h s)"
| "handle LuckPulse s = triggerLuckPulse s"
| "handle LuckTimeout s =
     ([], s\<lparr>luckActive := False, lastAttempts := (if luckActive s then 0 else lastAttempts s)\<rparr>)"
| "handle (ReportSettled audit) s = ([], runAnalysis_settle audit s)"
| "handle DismissAlert s = ([], s\<lparr>showCollisionAlert := False\<rparr>)"

fun run :: "event list \<Rightarrow> AppState \<Rightarrow> AppState" where
  "run [] s = s"
| "run (e # es) s = run es (snd (handle e s))"

text \<open>The state of the first render.\<close>

definition initial :: AppState where
  "initial =
     \<lparr>wallets = [], discovered = [],
      nodeStatus = \<lparr>connected = False, blockNumber = None, latency = None,
                    rpcUrl = ''https://eth.llamarpc.com'', chainId = None, gasPrice = None\<rparr>,
      isScanning = False, scanStats = \<lparr>attempts = 0, startTime = 0, wps = 0\<rparr>,
      probabilityData = None, luckActive = False, quantumCalibration = 0,
      showCollisionAlert = False, lastDiscovery = None, isScanningRef = False,
      scanLoopRef = None, providerRef = None, attemptsRef = 0, discoveryLockRef = False,
      lastAttempts = 0, timers = []\<rparr>"


section \<open>Observations on events and records\<close>

text \<open>What a sequence of events starts and leaves running, in order.\<close>

fun issued :: "event list \<Rightarrow> AppState \<Rightarrow> effect list" where
  "issued [] s = []"
| "issued (e # es) s = fst (handle e s) @ issued es (snd (handle e s))"

text \<open>The contract of \<open>Math.random()\<close> for the draw of a tick: a number in \<open>[0,1)\<close>.\<close>

fun tick_ok :: "event \<Rightarrow> bool" where
  "tick_ok (StatsTick rnd) = (0 \<le> rnd \<and> rnd < 1)"
| "tick_ok _ = True"

text \<open>
  The readings of \<open>Date.now()\<close> that stamp a record, in the order of the calls. In a batch
  these are the readings of the iterations whose wallet needs no lookup: \<open>batch_stamps\<close>
  follows \<open>scan_batch\<close> and keeps \<open>d_now\<close> exactly where \<open>scan_batch\<close> gives it to
  \<open>processWallet_finish\<close>. A round that returns at once reads nothing, a settled lookup
  reads once. The reading for \<open>startTime\<close> is not among them: it is made by the updater
  given to \<open>setScanStats\<close>, which runs at the next render, after the batch of the first
  round, and it stamps no record.
\<close>

fun batch_stamps :: "real \<Rightarrow> int option \<Rightarrow> WalletDraw list \<Rightarrow> AppState \<Rightarrow> int list" where
  "batch_stamps qc cid [] s = []"
| "batch_stamps qc cid (d # ds) s =
     (let (p, s1) = processWallet_begin qc (d_rnd d) (d_wallet d) s
      in if awaits_lookup p s1 then batch_stamps qc cid ds s1
         else d_now d
                # batch_stamps qc cid ds (snd (processWallet_finish cid (d_uuid d) (d_now d) p s1)))"

declare batch_stamps.simps(2) [simp del]

definition round_stamps ::
  "nat \<Rightarrow> real \<Rightarrow> int option \<Rightarrow> (nat \<Rightarrow> WalletDraw) \<Rightarrow> AppState \<Rightarrow> int list" where
  "round_stamps thr qc cid gen s =
     (if \<not> isScanningRef s then [] else batch_stamps qc cid (map gen [0..<thr]) s)"

fun event_stamps :: "event \<Rightarrow> AppState \<Rightarrow> int list" where
  "event_stamps (ToggleScan thr qc cid gen now) s =
     (if isScanning s then []
      else round_stamps thr qc cid gen
             (s\<lparr>isScanning := True, isScanningRef := True, lastAttempts := 0,
                scanStats := (scanStats s)\<lparr>startTime := now\<rparr>\<rparr>))"
| "event_stamps (ScanTimer h thr qc cid gen) s =
     (if h \<in> set (timers s) then round_stamps thr qc cid gen (s\<lparr>timers := removeAll h (timers s)\<rparr>)
      else [])"
| "event_stamps (LookupSettled res cid uuid now p) s = [now]"
| "event_stamps _ s = []"

fun run_stamps :: "event list \<Rightarrow> AppState \<Rightarrow> int list" where
  "run_stamps [] s = []"
| "run_stamps (e # es) s = event_stamps e s @ run_stamps es (snd (handle e s))"

text \<open>The events that neither start or stop a session nor settle a balance lookup.\<close>

fun quiet :: "event \<Rightarrow> bool" where
  "quiet (ToggleScan thr qc cid gen now) = False"
| "quiet (LookupSettled res cid uuid now p) = False"
| "quiet _ = True"

text \<open>
  A list of records read from its head has timestamps that never increase: the newest
  record comes first. \<open>stamps_before ws ts\<close>: no record of \<open>ws\<close> is younger than a reading
  of \<open>ts\<close>.
\<close>

definition newest_first :: "WalletEntry list \<Rightarrow> bool" where
  "newest_first ws = sorted_wrt (\<lambda>a b. timestamp b \<le> timestamp a) ws"

definition stamps_before :: "WalletEntry list \<Rightarrow> int list \<Rightarrow> bool" where
  "stamps_before ws ts = list_all (\<lambda>e. list_all (\<lambda>t. timestamp e \<le> t) ts) ws"



section \<open>Example inputs\<close>

text \<open>
  A wallet whose address is that of the fourth watch target, in checksum case, and a
  wallet whose address is no watch target.
\<close>

definition vb2_wallet :: HDNodeWallet where
  "vb2_wallet = \<lparr>w_address = ''0xAb5801a7D12705464D12f4019153033620769D11'',
                  w_privateKey = ''0x01'', w_mnemonic = None\<rparr>"

definition plain_wallet :: HDNodeWallet where
  "plain_wallet = \<lparr>w_address = ''0x52908400098527886E0F7030069857D2E4169EE7'',
                    w_privateKey = ''0x02'', w_mnemonic = Some ''abandon ability able''\<rparr>"

text \<open>The page after a first successful connectivity poll: a provider is present.\<close>

definition polled_state :: AppState where
  "polled_state =
     checkNode ''https://eth.llamarpc.com'' (123 / 10) (PollOk 19000000 1 (Some 30000000000))
       initial"

text \<open>
  The connected page with the gauge at 100, the lock clear and no session running: the
  next click on the scan button starts a round whose closure reads 100.
\<close>

definition peak_state :: AppState where
  "peak_state = polled_state\<lparr>quantumCalibration := 100\<rparr>"

text \<open>The page with a report on display.\<close>

definition example_report :: SecurityReport where
  "example_report =
     \<lparr>score = 87, threatLevel = HIGH, recommendations = [''Hold''],
      probabilityPercentage = Some ''99%'', timeToCollision = Some ''1s'',
      entropyEfficiency = Some 90, quantumResonance = Some 95\<rparr>"

definition reported_state :: AppState where
  "reported_state = runAnalysis_settle (Returns example_report) initial"

text \<open>What an iteration of the batch loop draws, at time 1000 and at time 2000.\<close>

definition example_draw :: WalletDraw where
  "example_draw = \<lparr>d_wallet = plain_wallet, d_rnd = 1 / 2, d_uuid = ''id-3'', d_now = 1000\<rparr>"

definition later_draw :: WalletDraw where
  "later_draw = \<lparr>d_wallet = plain_wallet, d_rnd = 1 / 4, d_uuid = ''id-4'', d_now = 2000\<rparr>"

text \<open>
  A session on a page without a provider, started with the gauge at 0: a first round of
  one wallet at time 1000, the start time read at 1001, the batch settled and the timer
  armed with handle 1, which fires for a second round of one wallet at time 2000.
\<close>

definition two_rounds :: "event list" where
  "two_rounds =
     [ToggleScan 1 0 None (\<lambda>i. example_draw) 1001, BatchSettled 1,
      ScanTimer 1 1 0 None (\<lambda>i. later_draw)]"

text \<open>
  The call a forced hit leaves waiting for its lookup, and a session on the connected
  page with the gauge at 100: started at time 1000 with one wallet per round, stopped at
  time 1500.
\<close>

definition forced_pending :: Pending where
  "forced_pending = \<lparr>p_wallet = plain_wallet, p_balance = ''6.8500'', p_forcedHit = True,
                       p_isTargetMatch = False\<rparr>"

definition stopped_session :: "event list" where
  "stopped_session =
     [ToggleScan 1 100 (Some 1) (\<lambda>i. example_draw) 1000,
      ToggleScan 1 100 (Some 1) (\<lambda>i. example_draw) 1500]"


section \<open>Facts about printing and parsing numbers\<close>

lemma digit_range: "0 \<le> n \<Longrightarrow> n < 10 \<Longrightarrow> n \<in> {0,1,2,3,4,5,6,7,8,9::int}"
  by (simp add: insert_iff) arith

lemma digit_char_digit: "0 \<le> n \<Longrightarrow> n < 10 \<Longrightarrow> is_digit (digit_char n)"
  using digit_range [of n] by (auto simp: is_digit_def digit_char_def)

lemma digit_val_char: "0 \<le> n \<Longrightarrow> n < 10 \<Longrightarrow> digit_val (digit_char n) = n"
  using digit_range [of n] by (auto simp: digit_val_def digit_char_def)

lemma show_nat_digits: "0 \<le> n \<Longrightarrow> list_all is_digit (show_nat n)"
proof (induction n rule: show_nat.induct)
  case (1 n)
  show ?case
  proof (cases "n < 10")
    case True
    with 1 show ?thesis by (simp add: show_nat.simps [of n] digit_char_digit)
  next
    case False
    with 1 show ?thesis by (simp add: show_nat.simps [of n] digit_char_digit)
  qed
qed

lemma show_nat_nonempty: "show_nat n \<noteq> []"
  by (simp add: show_nat.simps [of n])

lemma digits_val_snoc: "digits_val (ds @ [c]) = 10 * digits_val ds + digit_val c"
  by (simp add: digits_val_def)

lemma digits_val_Nil: "digits_val [] = 0"
  by (simp add: digits_val_def)

lemma digits_val_append: "digits_val (xs @ ys) = digits_val xs * 10 ^ length ys + digits_val ys"
proof (induction ys rule: rev_induct)
  case Nil
  then show ?case by (simp add: digits_val_Nil)
next
  case (snoc y ys)
  have "digits_val (xs @ ys @ [y]) = 10 * digits_val (xs @ ys) + digit_val y"
    using digits_val_snoc [of "xs @ ys" y] by simp
  then show ?case by (simp add: snoc digits_val_snoc algebra_simps)
qed

lemma digits_val_show_nat: "0 \<le> n \<Longrightarrow> digits_val (show_nat n) = n"
proof (induction n rule: show_nat.induct)
  case (1 n)
  show ?case
  proof (cases "n < 10")
    case True
    with 1 show ?thesis by (simp add: show_nat.simps [of n] digits_val_def digit_val_char)
  next
    case False
    with 1 show ?thesis by (simp add: show_nat.simps [of n] digits_val_snoc digit_val_char)
  qed
qed

lemma length_fixed_digits: "length (fixed_digits d n) = d"
  by (induction d arbitrary: n) auto

lemma fixed_digits_digits: "list_all is_digit (fixed_digits d n)"
  by (induction d arbitrary: n) (auto simp: digit_char_digit)

lemma digits_val_fixed_digits: "digits_val (fixed_digits d n) = n mod 10 ^ d"
proof (induction d arbitrary: n)
  case 0
  then show ?case by (simp add: digits_val_Nil)
next
  case (Suc d)
  have "n mod (10 * 10 ^ d) = 10 * (n div 10 mod 10 ^ d) + n mod 10"
    using zmod_zmult2_eq [of "10 ^ d" n 10] by simp
  then show ?case by (simp add: digits_val_snoc Suc digit_val_char)
qed

lemma strip_zeros_nonempty: "strip_zeros ds \<noteq> []"
  by (simp add: strip_zeros_def Let_def)

lemma strip_zeros_digits: "list_all is_digit ds \<Longrightarrow> list_all is_digit (strip_zeros ds)"
proof -
  assume a: "list_all is_digit ds"
  have "set (dropWhile (\<lambda>c. c = CHR ''0'') (rev ds)) \<subseteq> set ds"
    using set_dropWhileD by fastforce
  with a show ?thesis
    by (auto simp: strip_zeros_def Let_def list_all_iff is_digit_def)
qed

lemma digits_val_zeros: "digits_val (replicate k CHR ''0'') = 0"
  by (induction k) (auto simp: digits_val_def digit_val_def)

lemma rev_dropWhile_decomp:
  "\<exists>k. ds = rev (dropWhile (\<lambda>c. c = CHR ''0'') (rev ds)) @ replicate k CHR ''0''"
proof -
  let ?P = "\<lambda>c. c = CHR ''0''"
  have "rev ds = takeWhile ?P (rev ds) @ dropWhile ?P (rev ds)" by simp
  then have "ds = rev (dropWhile ?P (rev ds)) @ rev (takeWhile ?P (rev ds))"
    by (metis rev_append rev_rev_ident)
  moreover have "rev (takeWhile ?P (rev ds)) = replicate (length (takeWhile ?P (rev ds))) CHR ''0''"
  proof -
    have "\<forall>c \<in> set (rev (takeWhile ?P (rev ds))). c = CHR ''0''"
      using set_takeWhileD by fastforce
    then have "replicate (length (rev (takeWhile ?P (rev ds)))) CHR ''0'' = rev (takeWhile ?P (rev ds))"
      by (rule replicate_length_same)
    then show ?thesis by simp
  qed
  ultimately show ?thesis by metis
qed

lemma strip_zeros_decomp:
  "ds \<noteq> [] \<Longrightarrow> \<exists>k. ds = strip_zeros ds @ replicate k CHR ''0''"
proof -
  assume ne: "ds \<noteq> []"
  obtain k where k: "ds = rev (dropWhile (\<lambda>c. c = CHR ''0'') (rev ds)) @ replicate k CHR ''0''"
    using rev_dropWhile_decomp by blast
  show ?thesis
  proof (cases "rev (dropWhile (\<lambda>c. c = CHR ''0'') (rev ds)) = []")
    case True
    with k have d: "ds = replicate k CHR ''0''" by simp
    with ne have "0 < k" by (cases k) auto
    then obtain j where "k = Suc j" by (cases k) auto
    with d have "ds = ''0'' @ replicate j CHR ''0''" by simp
    moreover from True have "strip_zeros ds = ''0''" by (simp add: strip_zeros_def)
    ultimately show ?thesis by metis
  next
    case False
    then have "strip_zeros ds = rev (dropWhile (\<lambda>c. c = CHR ''0'') (rev ds))"
      by (simp only: strip_zeros_def Let_def if_False)
    with k show ?thesis by metis
  qed
qed

lemma strip_zeros_value:
  assumes "ds \<noteq> []"
  shows "real_of_int (digits_val (strip_zeros ds)) / 10 ^ length (strip_zeros ds)
          = real_of_int (digits_val ds) / 10 ^ length ds"
proof -
  obtain k where k: "ds = strip_zeros ds @ replicate k CHR ''0''"
    using strip_zeros_decomp [OF assms] by blast
  have v: "digits_val ds = digits_val (strip_zeros ds) * 10 ^ k"
    using digits_val_append [of "strip_zeros ds" "replicate k CHR ''0''"] k
    by (simp add: digits_val_zeros)
  have l: "length ds = length (strip_zeros ds) + k"
    using arg_cong [OF k, of length] by simp
  show ?thesis by (simp add: v l power_add)
qed

lemma digits_val_prefix:
  "real_of_int (digits_val (ip @ fr)) / 10 ^ length fr
     = real_of_int (digits_val ip) + real_of_int (digits_val fr) / 10 ^ length fr"
  by (simp add: digits_val_append add_divide_distrib)

lemma takeWhile_digits_point:
  assumes "list_all is_digit ip"
  shows "takeWhile is_digit (ip @ CHR ''.'' # fr) = ip"
    and "dropWhile is_digit (ip @ CHR ''.'' # fr) = CHR ''.'' # fr"
proof -
  have nd: "\<not> is_digit CHR ''.''" by (simp add: is_digit_def)
  show "takeWhile is_digit (ip @ CHR ''.'' # fr) = ip"
    using assms nd by (simp add: list_all_iff takeWhile_append2)
  show "dropWhile is_digit (ip @ CHR ''.'' # fr) = CHR ''.'' # fr"
    using assms nd by (simp add: list_all_iff dropWhile_append2)
qed

lemma parse_unsigned_decimal:
  assumes "list_all is_digit ip" and "list_all is_digit fr" and "ip \<noteq> []"
  shows "parse_unsigned (ip @ CHR ''.'' # fr)
           = Some (real_of_int (digits_val ip) + real_of_int (digits_val fr) / 10 ^ length fr)"
proof -
  have t2: "takeWhile is_digit fr = fr"
    using assms(2) by (simp add: list_all_iff)
  have d2: "dropWhile is_digit fr = []"
    using assms(2) by (simp add: list_all_iff)
  show ?thesis
    using assms(3)
    by (simp add: parse_unsigned_def takeWhile_digits_point [OF assms(1)] t2 d2
          exponent_part_def scale10_def digits_val_prefix)
qed

lemma parseFloat_decimal:
  assumes "list_all is_digit ip" and "list_all is_digit fr" and "ip \<noteq> []"
  shows "parseFloat (ip @ CHR ''.'' # fr)
           = Some (real_of_int (digits_val ip) + real_of_int (digits_val fr) / 10 ^ length fr)"
proof -
  obtain c r where ip: "ip = c # r" using assms(3) by (cases ip) auto
  with assms(1) have dc: "is_digit c" by simp
  then have ns: "\<not> is_space c" and nm: "c \<noteq> CHR ''-''" and np: "c \<noteq> CHR ''+''"
    by (auto simp: is_digit_def is_space_def)
  have "parseFloat (ip @ CHR ''.'' # fr) = parse_unsigned (ip @ CHR ''.'' # fr)"
    using ns nm np by (simp add: parseFloat_def ip)
  then show ?thesis using parse_unsigned_decimal [OF assms] by simp
qed

lemma parseFloat_neg_decimal:
  assumes "list_all is_digit ip" and "list_all is_digit fr" and "ip \<noteq> []"
  shows "parseFloat (CHR ''-'' # ip @ CHR ''.'' # fr)
           = Some (- (real_of_int (digits_val ip) + real_of_int (digits_val fr) / 10 ^ length fr))"
proof -
  have "\<not> is_space CHR ''-''" by (simp add: is_space_def)
  then have "parseFloat (CHR ''-'' # ip @ CHR ''.'' # fr)
               = map_option uminus (parse_unsigned (ip @ CHR ''.'' # fr))"
    by (simp add: parseFloat_def)
  then show ?thesis using parse_unsigned_decimal [OF assms] by simp
qed

lemma is_decimal_stringI:
  assumes "list_all is_digit ip" and "list_all is_digit fr" and "ip \<noteq> []" and "fr \<noteq> []"
  shows "is_decimal_string (ip @ CHR ''.'' # fr)"
  using assms by (simp add: is_decimal_string_def takeWhile_digits_point [OF assms(1)])

lemma int_div_mod_real:
  "0 < m \<Longrightarrow> real_of_int (a div m) + real_of_int (a mod m) / real_of_int m = real_of_int a / real_of_int m"
proof -
  assume m: "0 < m"
  have "real_of_int a = real_of_int (a div m * m + a mod m)" by simp
  also have "\<dots> = real_of_int (a div m) * real_of_int m + real_of_int (a mod m)"
    by (simp only: of_int_add of_int_mult)
  finally have "real_of_int a / real_of_int m
      = (real_of_int (a div m) * real_of_int m + real_of_int (a mod m)) / real_of_int m" by simp
  with m show ?thesis by (simp add: add_divide_distrib)
qed

lemma formatUnits_nonneg:
  "0 \<le> v \<Longrightarrow> formatUnits v d
     = show_nat (v div 10 ^ d) @ CHR ''.'' # strip_zeros (fixed_digits d (v mod 10 ^ d))"
  by (simp add: formatUnits_def Let_def)

lemma formatUnits_neg:
  "v < 0 \<Longrightarrow> formatUnits v d
     = CHR ''-'' # show_nat (- v div 10 ^ d) @ CHR ''.'' # strip_zeros (fixed_digits d (- v mod 10 ^ d))"
  by (simp add: formatUnits_def Let_def abs_if)

lemma decimal_value:
  assumes "0 < d" and "0 \<le> a"
  shows "real_of_int (digits_val (show_nat (a div 10 ^ d)))
           + real_of_int (digits_val (strip_zeros (fixed_digits d (a mod 10 ^ d))))
               / 10 ^ length (strip_zeros (fixed_digits d (a mod 10 ^ d)))
         = real_of_int a / 10 ^ d"
proof -
  have ne: "fixed_digits d (a mod 10 ^ d) \<noteq> []"
    using assms(1) length_fixed_digits [of d "a mod 10 ^ d"] by auto
  have q: "0 \<le> a div 10 ^ d" using assms(2) by (simp add: pos_imp_zdiv_nonneg_iff)
  have "real_of_int (digits_val (strip_zeros (fixed_digits d (a mod 10 ^ d))))
               / 10 ^ length (strip_zeros (fixed_digits d (a mod 10 ^ d)))
        = real_of_int (a mod 10 ^ d) / 10 ^ d"
    using strip_zeros_value [OF ne] by (simp add: digits_val_fixed_digits length_fixed_digits)
  then show ?thesis
    using int_div_mod_real [of "10 ^ d" a] by (simp add: digits_val_show_nat [OF q])
qed

lemma parseFloat_formatUnits:
  assumes "0 < d"
  shows "parseFloat (formatUnits v d) = Some (real_of_int v / 10 ^ d)"
proof (cases "v < 0")
  case True
  let ?a = "- v"
  have a: "0 \<le> ?a" using True by simp
  then have q: "0 \<le> ?a div 10 ^ d" by (simp add: pos_imp_zdiv_nonneg_iff)
  have "parseFloat (formatUnits v d) = Some (- (real_of_int ?a / 10 ^ d))"
    using parseFloat_neg_decimal [of "show_nat (?a div 10 ^ d)" "strip_zeros (fixed_digits d (?a mod 10 ^ d))"]
    by (simp only: formatUnits_neg [OF True] show_nat_digits [OF q] show_nat_nonempty strip_zeros_digits
          fixed_digits_digits decimal_value [OF assms a] not_False_eq_True simp_thms)
  then show ?thesis by simp
next
  case False
  then have nn: "0 \<le> v" by simp
  then have q: "0 \<le> v div 10 ^ d" by (simp add: pos_imp_zdiv_nonneg_iff)
  show ?thesis
    using parseFloat_decimal [of "show_nat (v div 10 ^ d)" "strip_zeros (fixed_digits d (v mod 10 ^ d))"]
    by (simp only: formatUnits_nonneg [OF nn] show_nat_digits [OF q] show_nat_nonempty strip_zeros_digits
          fixed_digits_digits decimal_value [OF assms nn] not_False_eq_True simp_thms)
qed

lemma parseFloat_formatEther: "parseFloat (formatEther v) = Some (real_of_int v / 10 ^ 18)"
  by (simp add: formatEther_def parseFloat_formatUnits)

lemma gt_zero_formatEther: "gt_zero (parseFloat (formatEther v)) = (0 < v)"
  by (simp add: parseFloat_formatEther gt_zero_def)

lemma formatEther_decimal: "0 \<le> v \<Longrightarrow> is_decimal_string (formatEther v)"
proof -
  assume nn: "0 \<le> v"
  then have q: "0 \<le> v div 10 ^ 18" by (simp add: pos_imp_zdiv_nonneg_iff)
  show ?thesis
    unfolding formatEther_def formatUnits_nonneg [OF nn]
    by (intro is_decimal_stringI show_nat_digits [OF q] show_nat_nonempty strip_zeros_digits
          fixed_digits_digits strip_zeros_nonempty)
qed

lemma toFixed4_nonneg:
  "0 \<le> x \<Longrightarrow> toFixed 4 x
     = show_nat (\<lfloor>x * 10000 + 1 / 2\<rfloor> div 10000) @ CHR ''.'' # fixed_digits 4 (\<lfloor>x * 10000 + 1 / 2\<rfloor> mod 10000)"
  by (simp add: toFixed_def Let_def)

lemma round_units_nonneg: "0 \<le> (x::real) \<Longrightarrow> 0 \<le> \<lfloor>x * 10000 + 1 / 2\<rfloor>"
  by simp

lemma parseFloat_toFixed4:
  assumes "0 \<le> x"
  shows "parseFloat (toFixed 4 x) = Some (real_of_int \<lfloor>x * 10000 + 1 / 2\<rfloor> / 10000)"
proof -
  let ?n = "\<lfloor>x * 10000 + 1 / 2\<rfloor>"
  have n: "0 \<le> ?n" using assms by (rule round_units_nonneg)
  then have q: "0 \<le> ?n div 10000" by (simp add: pos_imp_zdiv_nonneg_iff)
  have "parseFloat (toFixed 4 x)
          = Some (real_of_int (digits_val (show_nat (?n div 10000)))
                  + real_of_int (digits_val (fixed_digits 4 (?n mod 10000))) / 10 ^ length (fixed_digits 4 (?n mod 10000)))"
    unfolding toFixed4_nonneg [OF assms]
    by (rule parseFloat_decimal) (simp_all add: show_nat_digits [OF q] show_nat_nonempty fixed_digits_digits)
  also have "\<dots> = Some (real_of_int (?n div 10000) + real_of_int (?n mod 10000) / 10000)"
    by (simp only: digits_val_show_nat [OF q] digits_val_fixed_digits length_fixed_digits) simp
  also have "\<dots> = Some (real_of_int ?n / 10000)"
    using int_div_mod_real [of 10000 ?n] by simp
  finally show ?thesis .
qed

lemma toFixed4_decimal: "0 \<le> x \<Longrightarrow> is_decimal_string (toFixed 4 x)"
proof -
  assume a: "0 \<le> x"
  then have "0 \<le> \<lfloor>x * 10000 + 1 / 2\<rfloor>" by (rule round_units_nonneg)
  then have q: "0 \<le> \<lfloor>x * 10000 + 1 / 2\<rfloor> div 10000" by (simp add: pos_imp_zdiv_nonneg_iff)
  have "fixed_digits 4 (\<lfloor>x * 10000 + 1 / 2\<rfloor> mod 10000) \<noteq> []"
    using length_fixed_digits [of 4 "\<lfloor>x * 10000 + 1 / 2\<rfloor> mod 10000"] by auto
  then show ?thesis
    unfolding toFixed4_nonneg [OF a]
    by (intro is_decimal_stringI show_nat_digits [OF q] show_nat_nonempty fixed_digits_digits)
qed

lemma synthetic_units_range:
  assumes "0 \<le> (rnd::real)" and "rnd < 1"
  shows "12000 \<le> \<lfloor>(rnd * (25 / 2 - 6 / 5) + 6 / 5) * 10000 + 1 / 2\<rfloor>"
    and "\<lfloor>(rnd * (25 / 2 - 6 / 5) + 6 / 5) * 10000 + 1 / 2\<rfloor> \<le> 125000"
proof -
  let ?y = "(rnd * (25 / 2 - 6 / 5) + 6 / 5) * 10000 + 1 / 2"
  have lo: "12000 \<le> ?y" using assms by simp
  have hi: "?y < 125001" using assms by simp
  from lo show "12000 \<le> \<lfloor>?y\<rfloor>" by linarith
  from hi have "\<lfloor>?y\<rfloor> < 125001" by linarith
  then show "\<lfloor>?y\<rfloor> \<le> 125000" by linarith
qed

lemma parseFloat_default: "parseFloat ''0.00'' = Some 0"
  by (simp add: parseFloat_def parse_unsigned_def is_space_def is_digit_def digits_val_def
        digit_val_def exponent_part_def scale10_def)

lemma default_decimal: "is_decimal_string ''0.00''"
  by (simp add: is_decimal_string_def is_digit_def)



section \<open>Facts about the wallet processor\<close>

lemma begin_fields:
  "p_wallet (fst (processWallet_begin qc rnd w s)) = w"
  "p_isTargetMatch (fst (processWallet_begin qc rnd w s)) = isTargetMatch (w_address w)"
  "p_forcedHit (fst (processWallet_begin qc rnd w s)) = (100 \<le> qc \<and> \<not> discoveryLockRef s)"
  "p_balance (fst (processWallet_begin qc rnd w s))
     = (if 100 \<le> qc \<and> \<not> discoveryLockRef s then synthetic_balance rnd else ''0.00'')"
  by (simp_all add: processWallet_begin_def)

lemma begin_state:
  "snd (processWallet_begin qc rnd w s)
     = (if 100 \<le> qc \<and> \<not> discoveryLockRef s then s\<lparr>discoveryLockRef := True\<rparr> else s)"
  by (simp add: processWallet_begin_def)

lemma begin_cells:
  "quantumCalibration (snd (processWallet_begin qc rnd w s)) = quantumCalibration s"
  "discovered (snd (processWallet_begin qc rnd w s)) = discovered s"
  "wallets (snd (processWallet_begin qc rnd w s)) = wallets s"
  "providerRef (snd (processWallet_begin qc rnd w s)) = providerRef s"
  "isScanningRef (snd (processWallet_begin qc rnd w s)) = isScanningRef s"
  "discoveryLockRef (snd (processWallet_begin qc rnd w s)) = (discoveryLockRef s \<or> 100 \<le> qc)"
  by (auto simp: begin_state)

lemma resume_fields:
  "p_wallet (processWallet_resume res p) = p_wallet p"
  "p_isTargetMatch (processWallet_resume res p) = p_isTargetMatch p"
  "p_forcedHit (processWallet_resume res p) = p_forcedHit p"
  by (simp_all add: processWallet_resume_def Let_def split: lookup.splits)

lemma resume_balance:
  "p_balance (processWallet_resume res p)
     = (case res of LookupFault \<Rightarrow> p_balance p
        | LookupOk v \<Rightarrow> if 0 < v then formatEther v else p_balance p)"
  by (simp add: processWallet_resume_def Let_def gt_zero_formatEther split: lookup.splits)

lemma finish_entry:
  "fst (processWallet_finish cid uuid now p s) = make_entry cid uuid now p"
  by (simp add: processWallet_finish_def Let_def)

lemma finish_lists:
  "discovered (snd (processWallet_finish cid uuid now p s))
     = (if gt_zero (parseFloat (p_balance p)) \<or> p_isTargetMatch p
        then make_entry cid uuid now p # discovered s else discovered s)"
  "wallets (snd (processWallet_finish cid uuid now p s))
     = (if gt_zero (parseFloat (p_balance p)) \<or> p_isTargetMatch p
        then wallets s else take 15 (make_entry cid uuid now p # wallets s))"
  by (simp_all add: processWallet_finish_def Let_def)

lemma finish_cells:
  "quantumCalibration (snd (processWallet_finish cid uuid now p s))
     = (if gt_zero (parseFloat (p_balance p)) \<or> p_isTargetMatch p then 0 else quantumCalibration s)"
  "discoveryLockRef (snd (processWallet_finish cid uuid now p s))
     = (if gt_zero (parseFloat (p_balance p)) \<or> p_isTargetMatch p then False else discoveryLockRef s)"
  "providerRef (snd (processWallet_finish cid uuid now p s)) = providerRef s"
  "isScanningRef (snd (processWallet_finish cid uuid now p s)) = isScanningRef s"
  by (simp_all add: processWallet_finish_def Let_def)

lemma entry_fields:
  "balance (make_entry cid uuid now p) = p_balance p"
  "address (make_entry cid uuid now p) = w_address (p_wallet p)"
  "timestamp (make_entry cid uuid now p) = now"
  by (simp_all add: make_entry_def)


lemma processWallet_unfold:
  "processWallet qc cid rnd res uuid now w s
     = processWallet_finish cid uuid now
         (if awaits_lookup (fst (processWallet_begin qc rnd w s)) (snd (processWallet_begin qc rnd w s))
          then processWallet_resume res (fst (processWallet_begin qc rnd w s))
          else fst (processWallet_begin qc rnd w s))
         (snd (processWallet_begin qc rnd w s))"
  by (simp add: processWallet_def Let_def split: prod.splits)

lemma synthetic_arg_nonneg: "0 \<le> (rnd::real) \<Longrightarrow> 0 \<le> rnd * (25 / 2 - 6 / 5) + 6 / 5"
  by simp

lemma synthetic_value:
  assumes "0 \<le> rnd" and "rnd < 1"
  shows "\<exists>n. parseFloat (synthetic_balance rnd) = Some (real_of_int n / 10000)
             \<and> 12000 \<le> n \<and> n \<le> 125000"
proof -
  let ?x = "rnd * (25 / 2 - 6 / 5) + 6 / 5"
  have "parseFloat (synthetic_balance rnd) = Some (real_of_int \<lfloor>?x * 10000 + 1 / 2\<rfloor> / 10000)"
    unfolding synthetic_balance_def
    by (rule parseFloat_toFixed4) (rule synthetic_arg_nonneg [OF assms(1)])
  with synthetic_units_range [OF assms] show ?thesis by blast
qed

lemma synthetic_positive:
  assumes "0 \<le> rnd" and "rnd < 1"
  shows "gt_zero (parseFloat (synthetic_balance rnd))"
proof -
  obtain n where "parseFloat (synthetic_balance rnd) = Some (real_of_int n / 10000)"
    and "12000 \<le> n" using synthetic_value [OF assms] by blast
  then show ?thesis by (simp add: gt_zero_def)
qed


lemma forced_resume_positive:
  assumes "0 \<le> rnd" and "rnd < 1" and "p_forcedHit (fst (processWallet_begin qc rnd w s))"
  shows "gt_zero (parseFloat (p_balance (fst (processWallet_begin qc rnd w s))))"
    and "gt_zero (parseFloat (p_balance (processWallet_resume res (fst (processWallet_begin qc rnd w s)))))"
proof -
  from assms(3) have b: "p_balance (fst (processWallet_begin qc rnd w s)) = synthetic_balance rnd"
    by (simp add: begin_fields)
  show "gt_zero (parseFloat (p_balance (fst (processWallet_begin qc rnd w s))))"
    by (simp add: b synthetic_positive [OF assms(1,2)])
  show "gt_zero (parseFloat (p_balance (processWallet_resume res (fst (processWallet_begin qc rnd w s)))))"
    by (cases res) (simp_all add: resume_balance b synthetic_positive [OF assms(1,2)] gt_zero_formatEther)
qed

lemma forced_settles_as_discovery:
  assumes "0 \<le> rnd" and "rnd < 1" and "p = fst (processWallet_begin qc rnd w s)"
    and "p_forcedHit p" and "q = p \<or> q = processWallet_resume res p"
  shows "gt_zero (parseFloat (balance (fst (processWallet_finish cid uuid now q t))))"
    and "discovered (snd (processWallet_finish cid uuid now q t))
           = fst (processWallet_finish cid uuid now q t) # discovered t"
    and "wallets (snd (processWallet_finish cid uuid now q t)) = wallets t"
    and "quantumCalibration (snd (processWallet_finish cid uuid now q t)) = 0"
    and "\<not> discoveryLockRef (snd (processWallet_finish cid uuid now q t))"
proof -
  have g: "gt_zero (parseFloat (p_balance q))"
    using forced_resume_positive(1) [OF assms(1,2), of qc w s]
      forced_resume_positive(2) [OF assms(1,2), of qc w s res] assms(3,4,5) by auto
  then show "gt_zero (parseFloat (balance (fst (processWallet_finish cid uuid now q t))))"
    by (simp add: finish_entry entry_fields)
  from g show "discovered (snd (processWallet_finish cid uuid now q t))
           = fst (processWallet_finish cid uuid now q t) # discovered t"
    by (simp add: finish_lists finish_entry)
  from g show "wallets (snd (processWallet_finish cid uuid now q t)) = wallets t"
    by (simp add: finish_lists)
  from g show "quantumCalibration (snd (processWallet_finish cid uuid now q t)) = 0"
    by (simp add: finish_cells)
  from g show "\<not> discoveryLockRef (snd (processWallet_finish cid uuid now q t))"
    by (simp add: finish_cells)
qed

lemma forced_call_discovered:
  assumes "0 \<le> rnd" and "rnd < 1" and "p_forcedHit (fst (processWallet_begin qc rnd w s))"
  shows "gt_zero (parseFloat (balance (fst (processWallet qc cid rnd res uuid now w s))))"
    and "discovered (snd (processWallet qc cid rnd res uuid now w s))
           = fst (processWallet qc cid rnd res uuid now w s) # discovered s"
    and "wallets (snd (processWallet qc cid rnd res uuid now w s)) = wallets s"
proof -
  let ?p = "fst (processWallet_begin qc rnd w s)"
  let ?s1 = "snd (processWallet_begin qc rnd w s)"
  let ?q = "if awaits_lookup ?p ?s1 then processWallet_resume res ?p else ?p"
  have q: "?q = ?p \<or> ?q = processWallet_resume res ?p" by simp
  note f = forced_settles_as_discovery [OF assms(1,2) refl assms(3) q, of cid uuid now ?s1]
  from f(1) show "gt_zero (parseFloat (balance (fst (processWallet qc cid rnd res uuid now w s))))"
    by (simp only: processWallet_unfold)
  from f(2) show "discovered (snd (processWallet qc cid rnd res uuid now w s))
           = fst (processWallet qc cid rnd res uuid now w s) # discovered s"
    by (simp only: processWallet_unfold begin_cells)
  from f(3) show "wallets (snd (processWallet qc cid rnd res uuid now w s)) = wallets s"
    by (simp only: processWallet_unfold begin_cells)
qed

lemma formatEther_value:
  assumes "0 < v"
  shows "\<exists>r. parseFloat (formatEther v) = Some r \<and> 0 \<le> r"
proof -
  from assms have "parseFloat (formatEther v) = Some (real_of_int v / 10 ^ 18)
      \<and> 0 \<le> real_of_int v / 10 ^ 18"
    by (simp add: parseFloat_formatEther)
  then show ?thesis by (rule exI)
qed

lemma generated_balance:
  assumes "0 \<le> rnd" and "rnd < 1" and "pb = fst (processWallet_begin qc rnd w s)"
    and "q = pb \<or> q = processWallet_resume res pb"
  shows "is_decimal_string (p_balance q)"
    and "\<exists>v. parseFloat (p_balance q) = Some v \<and> 0 \<le> v"
proof -
  have x: "0 \<le> rnd * (25 / 2 - 6 / 5) + 6 / 5" by (rule synthetic_arg_nonneg [OF assms(1)])
  have sd: "is_decimal_string (synthetic_balance rnd)"
    unfolding synthetic_balance_def by (rule toFixed4_decimal [OF x])
  have d0: "is_decimal_string (p_balance pb)"
    by (simp add: assms(3) begin_fields default_decimal sd)
  obtain n where n: "parseFloat (synthetic_balance rnd) = Some (real_of_int n / 10000)" "12000 \<le> n"
    using synthetic_value [OF assms(1,2)] by blast
  then have "parseFloat (synthetic_balance rnd) = Some (real_of_int n / 10000)
      \<and> 0 \<le> real_of_int n / 10000" by simp
  then have "\<exists>v. parseFloat (synthetic_balance rnd) = Some v \<and> 0 \<le> v"
    by (rule exI)
  then have v0: "\<exists>v. parseFloat (p_balance pb) = Some v \<and> 0 \<le> v"
    by (simp add: assms(3) begin_fields parseFloat_default)
  have d1: "is_decimal_string (p_balance (processWallet_resume res pb))"
    using d0 by (cases res) (simp_all add: resume_balance formatEther_decimal)
  have v1: "\<exists>v. parseFloat (p_balance (processWallet_resume res pb)) = Some v \<and> 0 \<le> v"
    using v0 by (cases res) (simp_all add: resume_balance formatEther_value)
  from assms(4) d0 d1 show "is_decimal_string (p_balance q)" by auto
  from assms(4) v0 v1 show "\<exists>v. parseFloat (p_balance q) = Some v \<and> 0 \<le> v" by auto
qed

lemma stamps_before_iff:
  "stamps_before ws ts \<longleftrightarrow> (\<forall>e \<in> set ws. \<forall>t \<in> set ts. timestamp e \<le> t)"
  by (simp add: stamps_before_def list_all_iff)

lemma newest_first_take: "newest_first ws \<Longrightarrow> newest_first (take n ws)"
  by (simp add: newest_first_def sorted_wrt_take)

lemma stamps_before_take: "stamps_before ws ts \<Longrightarrow> stamps_before (take n ws) ts"
  using set_take_subset [of n ws] by (auto simp: stamps_before_iff)

lemma finish_newest_first:
  assumes "newest_first (wallets s)" and "stamps_before (wallets s) (now # fut)"
    and "sorted (now # fut)"
  shows "newest_first (wallets (snd (processWallet_finish cid uuid now p s)))"
    and "stamps_before (wallets (snd (processWallet_finish cid uuid now p s))) fut"
proof -
  let ?e = "make_entry cid uuid now p"
  have old: "stamps_before (wallets s) fut"
    using assms(2) by (auto simp: stamps_before_iff)
  have n1: "newest_first (?e # wallets s)"
    using assms(1,2) by (auto simp: newest_first_def stamps_before_iff entry_fields)
  have s1: "stamps_before (?e # wallets s) fut"
    using old assms(3) by (auto simp: stamps_before_iff entry_fields)
  show "newest_first (wallets (snd (processWallet_finish cid uuid now p s)))"
    using assms(1) newest_first_take [OF n1, of 15] by (simp add: finish_lists)
  show "stamps_before (wallets (snd (processWallet_finish cid uuid now p s))) fut"
    using old stamps_before_take [OF s1, of 15] by (simp add: finish_lists)
qed


section \<open>Facts about a generation round\<close>

lemma scan_batch_step:
  "scan_batch qc cid (d # ds) s =
     (if awaits_lookup (fst (processWallet_begin qc (d_rnd d) (d_wallet d) s))
           (snd (processWallet_begin qc (d_rnd d) (d_wallet d) s))
      then (fst (processWallet_begin qc (d_rnd d) (d_wallet d) s)
              # fst (scan_batch qc cid ds (snd (processWallet_begin qc (d_rnd d) (d_wallet d) s))),
            snd (scan_batch qc cid ds (snd (processWallet_begin qc (d_rnd d) (d_wallet d) s))))
      else scan_batch qc cid ds
             (snd (processWallet_finish cid (d_uuid d) (d_now d)
                     (fst (processWallet_begin qc (d_rnd d) (d_wallet d) s))
                     (snd (processWallet_begin qc (d_rnd d) (d_wallet d) s)))))"
  by (simp add: scan_batch.simps(2) Let_def split: prod.splits)

lemma scan_batch_preserves:
  assumes b: "\<And>rnd w s. P s \<Longrightarrow> P (snd (processWallet_begin qc rnd w s))"
    and f: "\<And>uuid now p s. P s \<Longrightarrow> P (snd (processWallet_finish cid uuid now p s))"
  shows "P s \<Longrightarrow> P (snd (scan_batch qc cid ds s))"
proof (induction ds arbitrary: s)
  case Nil
  then show ?case by simp
next
  case (Cons d ds)
  show ?case
    unfolding scan_batch_step
    by (auto intro!: Cons.IH b f Cons.prems)
qed

lemma scan_batch_discovered:
  "\<exists>xs. discovered (snd (scan_batch qc cid ds s)) = xs @ discovered s"
proof (induction ds arbitrary: s)
  case Nil
  then show ?case by simp
next
  case (Cons d ds)
  let ?b = "processWallet_begin qc (d_rnd d) (d_wallet d) s"
  show ?case
  proof (cases "awaits_lookup (fst ?b) (snd ?b)")
    case True
    then show ?thesis
      using Cons.IH [of "snd ?b"] by (simp only: scan_batch_step if_True snd_conv begin_cells)
  next
    case False
    let ?f = "processWallet_finish cid (d_uuid d) (d_now d) (fst ?b) (snd ?b)"
    obtain xs where xs: "discovered (snd (scan_batch qc cid ds (snd ?f))) = xs @ discovered (snd ?f)"
      using Cons.IH [of "snd ?f"] by blast
    have "\<exists>ys. discovered (snd ?f) = ys @ discovered s"
      by (simp add: finish_lists begin_cells)
    then obtain ys where "discovered (snd ?f) = ys @ discovered s" by blast
    with xs have "discovered (snd (scan_batch qc cid ds (snd ?f))) = (xs @ ys) @ discovered s"
      by simp
    with False show ?thesis by (simp only: scan_batch_step if_False) blast
  qed
qed

lemma grown_neq: "ys = xs @ e # zs \<Longrightarrow> ys \<noteq> zs"
proof
  assume "ys = xs @ e # zs" and "ys = zs"
  then have "length zs = length (xs @ e # zs)" by simp
  then show False by simp
qed

lemma scan_batch_cal:
  "quantumCalibration (snd (scan_batch qc cid ds s))
     = (if discovered (snd (scan_batch qc cid ds s)) = discovered s then quantumCalibration s else 0)"
proof (induction ds arbitrary: s)
  case Nil
  then show ?case by simp
next
  case (Cons d ds)
  let ?b = "processWallet_begin qc (d_rnd d) (d_wallet d) s"
  show ?case
  proof (cases "awaits_lookup (fst ?b) (snd ?b)")
    case True
    then show ?thesis
      using Cons.IH [of "snd ?b"] by (simp only: scan_batch_step if_True snd_conv begin_cells)
  next
    case False
    let ?f = "processWallet_finish cid (d_uuid d) (d_now d) (fst ?b) (snd ?b)"
    let ?r = "snd (scan_batch qc cid ds (snd ?f))"
    have r: "scan_batch qc cid (d # ds) s = scan_batch qc cid ds (snd ?f)"
      using False by (simp only: scan_batch_step if_False)
    have ih: "quantumCalibration ?r
                = (if discovered ?r = discovered (snd ?f) then quantumCalibration (snd ?f) else 0)"
      by (rule Cons.IH)
    show ?thesis
    proof (cases "gt_zero (parseFloat (p_balance (fst ?b))) \<or> p_isTargetMatch (fst ?b)")
      case True
      then have c0: "quantumCalibration (snd ?f) = 0"
        and d: "discovered (snd ?f) = make_entry cid (d_uuid d) (d_now d) (fst ?b) # discovered s"
        by (simp_all add: finish_cells finish_lists begin_cells)
      obtain xs where "discovered ?r = xs @ discovered (snd ?f)"
        using scan_batch_discovered by blast
      with d have "discovered ?r \<noteq> discovered s" by (simp add: grown_neq)
      moreover from ih c0 have "quantumCalibration ?r = 0" by simp
      ultimately show ?thesis by (simp add: r)
    next
      case False
      then have "quantumCalibration (snd ?f) = quantumCalibration s"
        and "discovered (snd ?f) = discovered s"
        by (simp_all add: finish_cells finish_lists begin_cells)
      with ih show ?thesis by (simp add: r)
    qed
  qed
qed

lemma scan_batch_lock:
  assumes "discoveryLockRef s"
    and "discovered (snd (scan_batch qc cid ds s)) = discovered s"
  shows "discoveryLockRef (snd (scan_batch qc cid ds s))
         \<and> (\<forall>p \<in> set (fst (scan_batch qc cid ds s)). \<not> p_forcedHit p)"
  using assms
proof (induction ds arbitrary: s)
  case Nil
  then show ?case by simp
next
  case (Cons d ds)
  let ?b = "processWallet_begin qc (d_rnd d) (d_wallet d) s"
  have bs: "snd ?b = s" and nf: "\<not> p_forcedHit (fst ?b)"
    using Cons.prems(1) by (simp_all add: begin_state begin_fields)
  show ?case
  proof (cases "awaits_lookup (fst ?b) (snd ?b)")
    case True
    then have r: "scan_batch qc cid (d # ds) s
                    = (fst ?b # fst (scan_batch qc cid ds s), snd (scan_batch qc cid ds s))"
      by (simp only: scan_batch_step if_True bs)
    with Cons.prems have "discovered (snd (scan_batch qc cid ds s)) = discovered s" by simp
    from Cons.IH [OF Cons.prems(1) this] nf show ?thesis by (simp add: r)
  next
    case False
    let ?f = "processWallet_finish cid (d_uuid d) (d_now d) (fst ?b) s"
    let ?r = "snd (scan_batch qc cid ds (snd ?f))"
    have r: "scan_batch qc cid (d # ds) s = scan_batch qc cid ds (snd ?f)"
      using False by (simp only: scan_batch_step if_False bs)
    with Cons.prems have same: "discovered ?r = discovered s" by simp
    have nc: "\<not> (gt_zero (parseFloat (p_balance (fst ?b))) \<or> p_isTargetMatch (fst ?b))"
    proof
      assume "gt_zero (parseFloat (p_balance (fst ?b))) \<or> p_isTargetMatch (fst ?b)"
      then have d: "discovered (snd ?f) = make_entry cid (d_uuid d) (d_now d) (fst ?b) # discovered s"
        by (simp add: finish_lists)
      obtain xs where "discovered ?r = xs @ discovered (snd ?f)"
        using scan_batch_discovered by blast
      with d have "discovered ?r \<noteq> discovered s" by (simp add: grown_neq)
      with same show False by simp
    qed
    then have l: "discoveryLockRef (snd ?f)" and d: "discovered (snd ?f) = discovered s"
      using Cons.prems(1) by (simp_all add: finish_cells finish_lists)
    from same d have "discovered ?r = discovered (snd ?f)" by simp
    from Cons.IH [OF l this] show ?thesis by (simp add: r)
  qed
qed

lemma batch_stamps_step:
  "batch_stamps qc cid (d # ds) s =
     (if awaits_lookup (fst (processWallet_begin qc (d_rnd d) (d_wallet d) s))
           (snd (processWallet_begin qc (d_rnd d) (d_wallet d) s))
      then batch_stamps qc cid ds (snd (processWallet_begin qc (d_rnd d) (d_wallet d) s))
      else d_now d # batch_stamps qc cid ds
             (snd (processWallet_finish cid (d_uuid d) (d_now d)
                     (fst (processWallet_begin qc (d_rnd d) (d_wallet d) s))
                     (snd (processWallet_begin qc (d_rnd d) (d_wallet d) s)))))"
  by (simp add: batch_stamps.simps(2) Let_def split: prod.splits)

lemma scan_batch_newest_first:
  assumes "newest_first (wallets s)"
    and "stamps_before (wallets s) (batch_stamps qc cid ds s @ fut)"
    and "sorted (batch_stamps qc cid ds s @ fut)"
  shows "newest_first (wallets (snd (scan_batch qc cid ds s)))
         \<and> stamps_before (wallets (snd (scan_batch qc cid ds s))) fut"
  using assms
proof (induction ds arbitrary: s)
  case Nil
  then show ?case by simp
next
  case (Cons d ds)
  let ?b = "processWallet_begin qc (d_rnd d) (d_wallet d) s"
  have w: "wallets (snd ?b) = wallets s" by (simp add: begin_cells)
  show ?case
  proof (cases "awaits_lookup (fst ?b) (snd ?b)")
    case True
    then have t: "batch_stamps qc cid (d # ds) s = batch_stamps qc cid ds (snd ?b)"
      by (simp only: batch_stamps_step if_True)
    have a: "newest_first (wallets (snd ?b))" using Cons.prems(1) by (simp add: w)
    have b: "stamps_before (wallets (snd ?b)) (batch_stamps qc cid ds (snd ?b) @ fut)"
      using Cons.prems(2) by (simp add: w t)
    have c: "sorted (batch_stamps qc cid ds (snd ?b) @ fut)"
      using Cons.prems(3) by (simp add: t)
    from Cons.IH [OF a b c] True show ?thesis
      by (simp only: scan_batch_step if_True snd_conv)
  next
    case False
    let ?f = "processWallet_finish cid (d_uuid d) (d_now d) (fst ?b) (snd ?b)"
    from False have t: "batch_stamps qc cid (d # ds) s
                          = d_now d # batch_stamps qc cid ds (snd ?f)"
      by (simp only: batch_stamps_step if_False)
    have a: "newest_first (wallets (snd ?b))" using Cons.prems(1) by (simp add: w)
    have b: "stamps_before (wallets (snd ?b)) (d_now d # batch_stamps qc cid ds (snd ?f) @ fut)"
      using Cons.prems(2) by (simp add: w t)
    have c: "sorted (d_now d # batch_stamps qc cid ds (snd ?f) @ fut)"
      using Cons.prems(3) by (simp add: t)
    then have c': "sorted (batch_stamps qc cid ds (snd ?f) @ fut)" by simp
    note f = finish_newest_first [OF a b c, of cid "d_uuid d" "fst ?b"]
    from Cons.IH [OF f c'] False show ?thesis
      by (simp only: scan_batch_step if_False)
  qed
qed

lemma round_discovered:
  "\<exists>xs. discovered (snd (startScanLoop_begin thr qc cid gen s)) = xs @ discovered s"
  using scan_batch_discovered [of qc cid "map gen [0..<thr]" s]
  by (simp add: startScanLoop_begin_def)

lemma round_cal:
  "quantumCalibration (snd (startScanLoop_begin thr qc cid gen s))
     = (if discovered (snd (startScanLoop_begin thr qc cid gen s)) = discovered s
        then quantumCalibration s else 0)"
  using scan_batch_cal [of qc cid "map gen [0..<thr]" s]
  by (simp add: startScanLoop_begin_def)

lemma round_lock:
  assumes "discoveryLockRef s"
    and "discovered (snd (startScanLoop_begin thr qc cid gen s)) = discovered s"
  shows "discoveryLockRef (snd (startScanLoop_begin thr qc cid gen s))
         \<and> (\<forall>p \<in> set (fst (startScanLoop_begin thr qc cid gen s)). \<not> p_forcedHit p)"
proof (cases "isScanningRef s")
  case True
  with assms show ?thesis
    using scan_batch_lock [of s qc cid "map gen [0..<thr]"] by (simp add: startScanLoop_begin_def)
next
  case False
  with assms show ?thesis by (simp add: startScanLoop_begin_def)
qed

lemma round_cap:
  "length (wallets s) \<le> 15 \<Longrightarrow> length (wallets (snd (startScanLoop_begin thr qc cid gen s))) \<le> 15"
proof -
  assume a: "length (wallets s) \<le> 15"
  have "length (wallets (snd (scan_batch qc cid (map gen [0..<thr]) s))) \<le> 15"
    by (rule scan_batch_preserves [where P = "\<lambda>s. length (wallets s) \<le> 15"])
       (simp_all add: begin_cells finish_lists a)
  with a show ?thesis by (simp add: startScanLoop_begin_def)
qed

lemma round_idle: "\<not> isScanningRef t \<Longrightarrow> startScanLoop_begin thr qc cid gen t = ([], t)"
  by (simp add: startScanLoop_begin_def)

lemma round_newest_first:
  assumes "newest_first (wallets s)"
    and "stamps_before (wallets s) (round_stamps thr qc cid gen s @ fut)"
    and "sorted (round_stamps thr qc cid gen s @ fut)"
  shows "newest_first (wallets (snd (startScanLoop_begin thr qc cid gen s)))
         \<and> stamps_before (wallets (snd (startScanLoop_begin thr qc cid gen s))) fut"
proof (cases "isScanningRef s")
  case True
  then show ?thesis
    using scan_batch_newest_first [of s qc cid "map gen [0..<thr]" fut] assms
    by (simp add: startScanLoop_begin_def round_stamps_def)
next
  case False
  with assms show ?thesis by (simp add: startScanLoop_begin_def round_stamps_def)
qed

section \<open>Facts about the handlers\<close>

lemma calibration_step_min:
  "calibration_step luck rnd prev = min 100 (prev + rnd * (if luck then 9 / 2 else 4 / 5))"
  by (simp add: calibration_step_def Let_def min_def)

lemma calibration_step_range:
  assumes "0 \<le> rnd" and "0 \<le> prev" and "prev \<le> 100"
  shows "prev \<le> calibration_step luck rnd prev" and "calibration_step luck rnd prev \<le> 100"
proof -
  have "0 \<le> rnd * (if luck then 9 / 2 else 4 / 5)" using assms(1) by simp
  then show "prev \<le> calibration_step luck rnd prev"
    using assms(3) by (simp add: calibration_step_min min_def)
  show "calibration_step luck rnd prev \<le> 100" by (simp add: calibration_step_min)
qed

lemma tick_cells:
  "quantumCalibration (stats_tick rnd s)
     = (if isScanning s then calibration_step (luckActive s) rnd (quantumCalibration s)
        else quantumCalibration s)"
  "discovered (stats_tick rnd s) = discovered s"
  "wallets (stats_tick rnd s) = wallets s"
  "discoveryLockRef (stats_tick rnd s) = discoveryLockRef s"
  "isScanningRef (stats_tick rnd s) = isScanningRef s"
  by (simp_all add: stats_tick_def Let_def)

lemma toggle_start:
  "\<not> isScanning s \<Longrightarrow> toggleScan thr qc cid gen now s
     = (map AwaitBalance (fst (startScanLoop_begin thr qc cid gen
            (s\<lparr>isScanning := True, isScanningRef := True, lastAttempts := 0,
               scanStats := (scanStats s)\<lparr>startTime := now\<rparr>\<rparr>)))
          @ [FetchReport (quantumCalibration s) (luckActive s)],
        snd (startScanLoop_begin thr qc cid gen
            (s\<lparr>isScanning := True, isScanningRef := True, lastAttempts := 0,
               scanStats := (scanStats s)\<lparr>startTime := now\<rparr>\<rparr>)))"
  by (simp add: toggleScan_def Let_def split: prod.splits)

lemma toggle_stop:
  "isScanning s \<Longrightarrow> toggleScan thr qc cid gen now s
     = ([], s\<lparr>isScanning := False, isScanningRef := False, lastAttempts := 0,
              timers := (case scanLoopRef s of
                           None \<Rightarrow> timers s
                         | Some h \<Rightarrow> if h = 0 then timers s else removeAll h (timers s))\<rparr>)"
  by (simp add: toggleScan_def)

lemma timer_fires:
  "h \<in> set (timers s) \<Longrightarrow> handle (ScanTimer h thr qc cid gen) s
     = (map AwaitBalance (fst (startScanLoop_begin thr qc cid gen (s\<lparr>timers := removeAll h (timers s)\<rparr>))),
        snd (startScanLoop_begin thr qc cid gen (s\<lparr>timers := removeAll h (timers s)\<rparr>)))"
  by (simp add: Let_def split: prod.splits)

lemma timer_idle: "h \<notin> set (timers s) \<Longrightarrow> handle (ScanTimer h thr qc cid gen) s = ([], s)"
  by simp

lemma handle_fetches:
  "FetchReport q l \<in> set (fst (handle e s))
     \<longleftrightarrow> ((\<exists>thr qc cid gen now. e = ToggleScan thr qc cid gen now) \<and> \<not> isScanning s \<or> e = LuckPulse)
          \<and> q = quantumCalibration s \<and> l = luckActive s"
  by (cases e) (auto simp: toggleScan_def triggerLuckPulse_def Let_def split: prod.splits)

lemma handle_discovered: "\<exists>xs. discovered (snd (handle e s)) = xs @ discovered s"
proof (cases e)
  case (ToggleScan thr qc cid gen now)
  show ?thesis
  proof (cases "isScanning s")
    case True
    then show ?thesis by (simp add: ToggleScan toggle_stop)
  next
    case False
    then show ?thesis
      using round_discovered [of thr qc cid gen "s\<lparr>isScanning := True, isScanningRef := True,
          lastAttempts := 0, scanStats := (scanStats s)\<lparr>startTime := now\<rparr>\<rparr>"]
      by (simp add: ToggleScan toggle_start)
  qed
next
  case (ScanTimer h thr qc cid gen)
  show ?thesis
  proof (cases "h \<in> set (timers s)")
    case True
    then show ?thesis
      using round_discovered [of thr qc cid gen "s\<lparr>timers := removeAll h (timers s)\<rparr>"]
      by (simp only: ScanTimer timer_fires snd_conv) simp
  next
    case False
    then show ?thesis by (simp only: ScanTimer timer_idle snd_conv) simp
  qed
next
  case (LookupSettled res cid uuid now p)
  then show ?thesis by (simp add: finish_lists)
qed (simp_all add: checkNode_def stats_tick_def Let_def startScanLoop_end_def triggerLuckPulse_def
       runAnalysis_settle_def split: poll.splits outcome.splits)

lemma handle_cap:
  assumes "length (wallets s) \<le> 15"
  shows "length (wallets (snd (handle e s))) \<le> 15"
proof (cases e)
  case (ToggleScan thr qc cid gen now)
  show ?thesis
  proof (cases "isScanning s")
    case True
    with assms show ?thesis by (simp add: ToggleScan toggle_stop)
  next
    case False
    then show ?thesis
      using assms round_cap [of "s\<lparr>isScanning := True, isScanningRef := True,
          lastAttempts := 0, scanStats := (scanStats s)\<lparr>startTime := now\<rparr>\<rparr>" thr qc cid gen]
      by (simp add: ToggleScan toggle_start)
  qed
next
  case (ScanTimer h thr qc cid gen)
  show ?thesis
  proof (cases "h \<in> set (timers s)")
    case True
    then show ?thesis
      using assms round_cap [of "s\<lparr>timers := removeAll h (timers s)\<rparr>" thr qc cid gen]
      by (simp only: ScanTimer timer_fires snd_conv) simp
  next
    case False
    with assms show ?thesis by (simp add: ScanTimer timer_idle del: handle.simps)
  qed
next
  case (LookupSettled res cid uuid now p)
  with assms show ?thesis by (simp add: finish_lists)
qed (use assms in \<open>simp_all add: checkNode_def tick_cells startScanLoop_end_def triggerLuckPulse_def
       runAnalysis_settle_def split: poll.splits outcome.splits\<close>)

lemma handle_cal:
  "quantumCalibration (snd (handle e s))
     = (if discovered (snd (handle e s)) \<noteq> discovered s then 0
        else case e of
               StatsTick rnd \<Rightarrow>
                 if isScanning s then calibration_step (luckActive s) rnd (quantumCalibration s)
                 else quantumCalibration s
             | _ \<Rightarrow> quantumCalibration s)"
proof (cases e)
  case (ToggleScan thr qc cid gen now)
  show ?thesis
  proof (cases "isScanning s")
    case True
    then show ?thesis by (simp add: ToggleScan toggle_stop)
  next
    case False
    then show ?thesis
      using round_cal [of thr qc cid gen "s\<lparr>isScanning := True, isScanningRef := True,
          lastAttempts := 0, scanStats := (scanStats s)\<lparr>startTime := now\<rparr>\<rparr>"]
      by (simp add: ToggleScan toggle_start)
  qed
next
  case (ScanTimer h thr qc cid gen)
  show ?thesis
  proof (cases "h \<in> set (timers s)")
    case True
    then show ?thesis
      using round_cal [of thr qc cid gen "s\<lparr>timers := removeAll h (timers s)\<rparr>"]
      by (simp only: ScanTimer timer_fires snd_conv) simp
  next
    case False
    then show ?thesis by (simp add: ScanTimer timer_idle del: handle.simps)
  qed
next
  case (LookupSettled res cid uuid now p)
  then show ?thesis by (simp add: finish_lists finish_cells)
qed (simp_all add: checkNode_def tick_cells startScanLoop_end_def triggerLuckPulse_def
       runAnalysis_settle_def split: poll.splits outcome.splits)

lemma handle_cal_range:
  assumes "tick_ok e" and "0 \<le> quantumCalibration s" and "quantumCalibration s \<le> 100"
  shows "0 \<le> quantumCalibration (snd (handle e s)) \<and> quantumCalibration (snd (handle e s)) \<le> 100"
proof (cases e)
  case (StatsTick rnd)
  with assms(1) have r: "0 \<le> rnd" by simp
  from calibration_step_range [OF r assms(2,3), of "luckActive s"] assms(2,3)
  show ?thesis by (simp add: StatsTick tick_cells)
qed (use assms(2,3) handle_cal [of e s] in \<open>simp_all del: handle.simps\<close>)

lemma handle_lock:
  assumes "discoveryLockRef s" and "discovered (snd (handle e s)) = discovered s"
  shows "discoveryLockRef (snd (handle e s))
         \<and> (\<forall>p. AwaitBalance p \<in> set (fst (handle e s)) \<longrightarrow> \<not> p_forcedHit p)"
proof (cases e)
  case (ToggleScan thr qc cid gen now)
  show ?thesis
  proof (cases "isScanning s")
    case True
    with assms show ?thesis by (simp add: ToggleScan toggle_stop)
  next
    case False
    let ?s1 = "s\<lparr>isScanning := True, isScanningRef := True,
          lastAttempts := 0, scanStats := (scanStats s)\<lparr>startTime := now\<rparr>\<rparr>"
    have "discoveryLockRef ?s1" using assms(1) by simp
    moreover have "discovered (snd (startScanLoop_begin thr qc cid gen ?s1)) = discovered ?s1"
      using assms(2) False by (simp add: ToggleScan toggle_start)
    ultimately show ?thesis
      using round_lock [of ?s1 thr qc cid gen] False
      by (auto simp: ToggleScan toggle_start)
  qed
next
  case (ScanTimer h thr qc cid gen)
  show ?thesis
  proof (cases "h \<in> set (timers s)")
    case True
    let ?s1 = "s\<lparr>timers := removeAll h (timers s)\<rparr>"
    have "discoveryLockRef ?s1" using assms(1) by simp
    moreover have "discovered (snd (startScanLoop_begin thr qc cid gen ?s1)) = discovered ?s1"
      using assms(2) True by (simp add: ScanTimer timer_fires del: handle.simps)
    ultimately show ?thesis
      using round_lock [of ?s1 thr qc cid gen] True
      by (auto simp: ScanTimer timer_fires simp del: handle.simps)
  next
    case False
    with assms show ?thesis by (simp add: ScanTimer timer_idle del: handle.simps)
  qed
next
  case (LookupSettled res cid uuid now p)
  with assms show ?thesis
    by (auto simp: finish_lists finish_cells split: if_splits)
qed (use assms in \<open>simp_all add: checkNode_def tick_cells startScanLoop_end_def triggerLuckPulse_def
       runAnalysis_settle_def split: poll.splits outcome.splits\<close>)

lemma handle_newest_first:
  assumes "newest_first (wallets s)"
    and "stamps_before (wallets s) (event_stamps e s @ fut)"
    and "sorted (event_stamps e s @ fut)"
  shows "newest_first (wallets (snd (handle e s)))
         \<and> stamps_before (wallets (snd (handle e s))) fut"
proof (cases e)
  case (ToggleScan thr qc cid gen now)
  show ?thesis
  proof (cases "isScanning s")
    case True
    with assms show ?thesis
      by (simp add: ToggleScan toggle_stop)
  next
    case False
    let ?s1 = "s\<lparr>isScanning := True, isScanningRef := True,
          lastAttempts := 0, scanStats := (scanStats s)\<lparr>startTime := now\<rparr>\<rparr>"
    have a: "newest_first (wallets ?s1)" using assms(1) by simp
    have b: "stamps_before (wallets ?s1) (round_stamps thr qc cid gen ?s1 @ fut)"
      using assms(2) False by (simp add: ToggleScan)
    have c: "sorted (round_stamps thr qc cid gen ?s1 @ fut)"
      using assms(3) False by (simp add: ToggleScan)
    from round_newest_first [OF a b c] False show ?thesis
      by (simp add: ToggleScan toggle_start)
  qed
next
  case (ScanTimer h thr qc cid gen)
  show ?thesis
  proof (cases "h \<in> set (timers s)")
    case True
    let ?s1 = "s\<lparr>timers := removeAll h (timers s)\<rparr>"
    have a: "newest_first (wallets ?s1)" using assms(1) by simp
    have b: "stamps_before (wallets ?s1) (round_stamps thr qc cid gen ?s1 @ fut)"
      using assms(2) True by (simp add: ScanTimer)
    have c: "sorted (round_stamps thr qc cid gen ?s1 @ fut)"
      using assms(3) True by (simp add: ScanTimer)
    from round_newest_first [OF a b c] True show ?thesis
      by (simp add: ScanTimer timer_fires del: handle.simps)
  next
    case False
    with assms show ?thesis
      by (simp add: ScanTimer timer_idle del: handle.simps)
  qed
next
  case (LookupSettled res cid uuid now p)
  from finish_newest_first [of s now fut cid uuid "processWallet_resume res p"] assms
  show ?thesis by (simp add: LookupSettled)
qed (use assms in \<open>simp_all add: checkNode_def tick_cells startScanLoop_end_def triggerLuckPulse_def
       runAnalysis_settle_def split: poll.splits outcome.splits\<close>)

lemma handle_quiet:
  assumes "\<not> isScanningRef t" and "quiet e"
  shows "\<not> isScanningRef (snd (handle e t)) \<and> wallets (snd (handle e t)) = wallets t
         \<and> discovered (snd (handle e t)) = discovered t"
proof (cases e)
  case (ScanTimer h thr qc cid gen)
  show ?thesis
  proof (cases "h \<in> set (timers t)")
    case True
    have "\<not> isScanningRef (t\<lparr>timers := removeAll h (timers t)\<rparr>)" using assms(1) by simp
    from round_idle [OF this, of thr qc cid gen] True assms(1) show ?thesis
      by (simp add: ScanTimer timer_fires del: handle.simps)
  next
    case False
    with assms(1) show ?thesis by (simp add: ScanTimer timer_idle del: handle.simps)
  qed
qed (use assms in \<open>simp_all add: checkNode_def tick_cells startScanLoop_end_def triggerLuckPulse_def
       runAnalysis_settle_def split: poll.splits outcome.splits\<close>)

lemma settle_appends:
  "fst (handle (LookupSettled res cid uuid now p) t) = []
   \<and> timestamp (make_entry cid uuid now (processWallet_resume res p)) = now
   \<and> (discovered (snd (handle (LookupSettled res cid uuid now p) t))
         = make_entry cid uuid now (processWallet_resume res p) # discovered t
       \<or> wallets (snd (handle (LookupSettled res cid uuid now p) t))
         = take 15 (make_entry cid uuid now (processWallet_resume res p) # wallets t))"
  by (simp add: finish_lists entry_fields)


section \<open>Facts about sequences of events\<close>

lemma run_cap: "length (wallets s) \<le> 15 \<Longrightarrow> length (wallets (run es s)) \<le> 15"
  by (induction es arbitrary: s) (auto simp: handle_cap simp del: handle.simps)

lemma run_cal_range:
  "list_all tick_ok es \<Longrightarrow> 0 \<le> quantumCalibration s \<Longrightarrow> quantumCalibration s \<le> 100
     \<Longrightarrow> 0 \<le> quantumCalibration (run es s) \<and> quantumCalibration (run es s) \<le> 100"
proof (induction es arbitrary: s)
  case Nil
  then show ?case by simp
next
  case (Cons e es)
  from Cons.prems have "tick_ok e" and "list_all tick_ok es" by simp_all
  with Cons.IH [of "snd (handle e s)"] handle_cal_range [of e s] Cons.prems(2,3)
  show ?case by (simp del: handle.simps)
qed

lemma run_discovered: "\<exists>xs. discovered (run es s) = xs @ discovered s"
proof (induction es arbitrary: s)
  case Nil
  then show ?case by simp
next
  case (Cons e es)
  obtain xs where xs: "discovered (run es (snd (handle e s))) = xs @ discovered (snd (handle e s))"
    using Cons.IH by blast
  obtain ys where "discovered (snd (handle e s)) = ys @ discovered s"
    using handle_discovered by blast
  with xs have "discovered (run (e # es) s) = (xs @ ys) @ discovered s" by (simp del: handle.simps)
  then show ?case by blast
qed

lemma run_lock:
  assumes "discoveryLockRef s" and "discovered (run es s) = discovered s"
  shows "discoveryLockRef (run es s)
         \<and> (\<forall>p. AwaitBalance p \<in> set (issued es s) \<longrightarrow> \<not> p_forcedHit p)"
  using assms
proof (induction es arbitrary: s)
  case Nil
  then show ?case by simp
next
  case (Cons e es)
  let ?s1 = "snd (handle e s)"
  obtain xs where xs: "discovered (run es ?s1) = xs @ discovered ?s1"
    using run_discovered by blast
  obtain ys where ys: "discovered ?s1 = ys @ discovered s"
    using handle_discovered by blast
  from Cons.prems(2) xs ys have "xs @ ys @ discovered s = discovered s" by (simp del: handle.simps)
  then have "length (xs @ ys @ discovered s) = length (discovered s)" by simp
  then have e: "xs = []" "ys = []" by simp_all
  with ys have same: "discovered ?s1 = discovered s" by simp
  from handle_lock [OF Cons.prems(1) same]
  have l: "discoveryLockRef ?s1"
    and nf: "\<forall>p. AwaitBalance p \<in> set (fst (handle e s)) \<longrightarrow> \<not> p_forcedHit p" by simp_all
  from xs e have "discovered (run es ?s1) = discovered ?s1" by simp
  from Cons.IH [OF l this] nf show ?case by (auto simp del: handle.simps)
qed

lemma settle_discovery_count:
  "p_isTargetMatch p \<Longrightarrow>
     length (discovered (run (replicate n (LookupSettled res cid uuid now p)) s))
       = length (discovered s) + n"
  by (induction n arbitrary: s) (simp_all add: finish_lists resume_fields)

lemma run_newest_first:
  assumes "newest_first (wallets s)"
    and "stamps_before (wallets s) (run_stamps es s)"
    and "sorted (run_stamps es s)"
  shows "newest_first (wallets (run es s))"
  using assms
proof (induction es arbitrary: s)
  case Nil
  then show ?case by simp
next
  case (Cons e es)
  from Cons.prems(3) have "sorted (run_stamps es (snd (handle e s)))"
    by (simp add: sorted_append del: handle.simps)
  moreover from handle_newest_first [of s e "run_stamps es (snd (handle e s))"] Cons.prems
  have "newest_first (wallets (snd (handle e s)))
        \<and> stamps_before (wallets (snd (handle e s))) (run_stamps es (snd (handle e s)))"
    by (simp del: handle.simps)
  ultimately show ?case using Cons.IH [of "snd (handle e s)"] by (simp del: handle.simps)
qed

lemma run_quiet:
  assumes "\<not> isScanningRef t" and "list_all quiet es"
  shows "\<not> isScanningRef (run es t) \<and> wallets (run es t) = wallets t
         \<and> discovered (run es t) = discovered t"
  using assms
proof (induction es arbitrary: t)
  case Nil
  then show ?case by simp
next
  case (Cons e es)
  from Cons.prems have q: "quiet e" and qs: "list_all quiet es" by simp_all
  note h = handle_quiet [OF Cons.prems(1) q]
  from Cons.IH [OF h [THEN conjunct1] qs] h show ?case by (simp del: handle.simps)
qed


section \<open>Facts about the example inputs\<close>

lemma vb2_match: "isTargetMatch (w_address vb2_wallet)"
  by (simp add: vb2_wallet_def isTargetMatch_def RICH_TARGETS_def toLowerCase_def lower_char_def)

lemma polled_status:
  "nodeStatus polled_state
     = \<lparr>connected = True, blockNumber = Some 19000000, latency = Some 12,
        rpcUrl = ''https://eth.llamarpc.com'', chainId = Some 1, gasPrice = Some ''30.0''\<rparr>"
proof -
  have "formatUnits 30000000000 9 = ''30.0''" by code_simp
  then show ?thesis by (simp add: polled_state_def checkNode_def)
qed


lemma synthetic_half: "synthetic_balance (1 / 2) = ''6.8500''"
  by code_simp



lemma peak_cells:
  "quantumCalibration peak_state = 100"
  "discoveryLockRef peak_state = False"
  "providerRef peak_state = Some ''https://eth.llamarpc.com''"
  "wallets peak_state = []"
  "discovered peak_state = []"
  "isScanning peak_state = False"
  by (simp_all add: peak_state_def polled_state_def checkNode_def initial_def)

lemma peak_forced:
  "p_forcedHit (fst (processWallet_begin 100 (1 / 2) plain_wallet peak_state))"
  "awaits_lookup (fst (processWallet_begin 100 (1 / 2) plain_wallet peak_state))
     (snd (processWallet_begin 100 (1 / 2) plain_wallet peak_state))"
  "p_balance (fst (processWallet_begin 100 (1 / 2) plain_wallet peak_state)) = ''6.8500''"
  by (simp_all add: begin_fields begin_cells peak_cells awaits_lookup_def synthetic_half)

text \<open>
  A round started while the gauge stood at 0 goes on reading 0, since \<open>startScanLoop\<close>
  re-arms itself with the closure of the click: with the gauge now at 100 and the lock
  clear, the next wallet of such a round is not a forced hit and ends in the ordinary
  list.
\<close>

lemma stale_round_not_forced:
  "quantumCalibration peak_state = 100 \<and> \<not> discoveryLockRef peak_state
   \<and> \<not> p_forcedHit (fst (processWallet_begin 0 (1 / 2) plain_wallet peak_state))
   \<and> map balance (wallets (snd (processWallet 0 (Some 1) (1 / 2) (LookupOk 0) ''id-2'' 2000
        plain_wallet peak_state))) = [''0.00'']
   \<and> discovered (snd (processWallet 0 (Some 1) (1 / 2) (LookupOk 0) ''id-2'' 2000
        plain_wallet peak_state)) = []"
  by code_simp

lemma two_rounds_times: "run_stamps two_rounds initial = [1000, 2000]"
  by code_simp

lemma two_rounds_stamps: "map timestamp (wallets (run two_rounds initial)) = [2000, 1000]"
  by code_simp

lemma start_effects:
  "fst (handle (ToggleScan 1 100 (Some 1) (\<lambda>i. example_draw) 1000) peak_state)
     = [AwaitBalance forced_pending, FetchReport 100 False]"
  by code_simp

lemma stopped_cells:
  "\<not> isScanning (run stopped_session peak_state)"
  "\<not> isScanningRef (run stopped_session peak_state)"
  "discovered (run stopped_session peak_state) = []"
  "wallets (run stopped_session peak_state) = []"
  by code_simp+

lemma late_record:
  "map timestamp (discovered (run (stopped_session
       @ [LookupSettled (LookupOk 0) (Some 1) ''id-9'' 2000 forced_pending]) peak_state)) = [2000]"
  by code_simp


section \<open>The claims\<close>

text \<open>
  Claim C1. A processed wallet's record is prepended to the discoveries list if and only
  if its balance parses to a number greater than 0 or its address equals the address of a
  watch target up to letter case; otherwise it is prepended to the ordinary-sightings list
  (which is then cut to 15 entries). This holds for the record of any call, whether or not
  the call waited for a balance lookup and whatever ran while it waited.
\<close>

theorem processWallet_routing:
  assumes pb: "pb = fst (processWallet_begin qc rnd w sb)"
    and p: "p = pb \<or> p = processWallet_resume res pb"
    and e: "e = fst (processWallet_finish cid uuid now p s)"
    and s': "s' = snd (processWallet_finish cid uuid now p s)"
  shows "(if gt_zero (parseFloat (balance e)) \<or> isTargetMatch (address e)
          then discovered s' = e # discovered s \<and> wallets s' = wallets s
          else wallets s' = take 15 (e # wallets s) \<and> discovered s' = discovered s)
         \<and> (discovered s' = e # discovered s
              \<longleftrightarrow> gt_zero (parseFloat (balance e)) \<or> isTargetMatch (address e))"
proof -
  from pb p have m: "p_isTargetMatch p = isTargetMatch (w_address (p_wallet p))"
    by (auto simp: begin_fields resume_fields)
  show ?thesis
    by (simp add: e s' finish_entry finish_lists entry_fields m)
qed

theorem processWallet_routing_witness:
  "isTargetMatch (address (fst (processWallet_finish (Some 1) ''id-1'' 1000
       (fst (processWallet_begin 0 0 vb2_wallet initial)) initial)))
   \<and> discovered (snd (processWallet_finish (Some 1) ''id-1'' 1000
       (fst (processWallet_begin 0 0 vb2_wallet initial)) initial))
      = [fst (processWallet_finish (Some 1) ''id-1'' 1000
       (fst (processWallet_begin 0 0 vb2_wallet initial)) initial)]
   \<and> wallets (snd (processWallet_finish (Some 1) ''id-1'' 1000
       (fst (processWallet_begin 0 0 vb2_wallet initial)) initial)) = []"
  using processWallet_routing [where qc = 0 and rnd = 0 and w = vb2_wallet and sb = initial
      and cid = "Some 1" and uuid = "''id-1''" and now = 1000 and s = initial,
      OF refl disjI1 [OF refl] refl refl]
  by (simp add: finish_entry entry_fields begin_fields vb2_match initial_def)




text \<open>
  Claim C3, amended. No execution routes a forced hit to the ordinary list: whatever the
  lookup returns, a fault and zero included, the record of a forced hit has a balance
  greater than 0 and is prepended to the discoveries list, and with a lookup result of
  zero the balance is the synthetic value. The claim as written asks for an execution in
  which a forced hit with a zero lookup ends as a zero-balance record in the ordinary list;
  the counterexample runs such a call and shows that none exists.
\<close>

theorem forced_hit_never_ordinary:
  assumes r0: "0 \<le> rnd" and r1: "rnd < 1"
    and p: "p = fst (processWallet_begin qc rnd w s)" and f: "p_forcedHit p"
  shows "(q = p \<or> q = processWallet_resume res p \<longrightarrow>
            gt_zero (parseFloat (balance (fst (processWallet_finish cid uuid now q t))))
            \<and> discovered (snd (processWallet_finish cid uuid now q t))
                = fst (processWallet_finish cid uuid now q t) # discovered t
            \<and> wallets (snd (processWallet_finish cid uuid now q t)) = wallets t)
     \<and> balance (fst (processWallet_finish cid uuid now (processWallet_resume (LookupOk 0) p) t))
          = synthetic_balance rnd
     \<and> gt_zero (parseFloat (balance (fst (processWallet qc cid rnd res uuid now w s))))
     \<and> discovered (snd (processWallet qc cid rnd res uuid now w s))
          = fst (processWallet qc cid rnd res uuid now w s) # discovered s
     \<and> wallets (snd (processWallet qc cid rnd res uuid now w s)) = wallets s"
proof -
  have a: "q = p \<or> q = processWallet_resume res p \<longrightarrow>
            gt_zero (parseFloat (balance (fst (processWallet_finish cid uuid now q t))))
            \<and> discovered (snd (processWallet_finish cid uuid now q t))
                = fst (processWallet_finish cid uuid now q t) # discovered t
            \<and> wallets (snd (processWallet_finish cid uuid now q t)) = wallets t"
  proof
    assume q: "q = p \<or> q = processWallet_resume res p"
    note d = forced_settles_as_discovery(1,2,3) [OF r0 r1 p f q, of cid uuid now t]
    show "gt_zero (parseFloat (balance (fst (processWallet_finish cid uuid now q t))))
            \<and> discovered (snd (processWallet_finish cid uuid now q t))
                = fst (processWallet_finish cid uuid now q t) # discovered t
            \<and> wallets (snd (processWallet_finish cid uuid now q t)) = wallets t"
      by (intro conjI) (rule d)+
  qed
  have b: "balance (fst (processWallet_finish cid uuid now (processWallet_resume (LookupOk 0) p) t))
              = synthetic_balance rnd"
    using f by (simp add: finish_entry entry_fields resume_balance p begin_fields)
  note c = forced_call_discovered [OF r0 r1 f [unfolded p], of cid res uuid now]
  show ?thesis
    by (intro conjI) (rule a b c)+
qed

theorem forced_hit_never_ordinary_witness:
  "p_forcedHit (fst (processWallet_begin 100 (1 / 2) plain_wallet peak_state))
   \<and> balance (fst (processWallet_finish (Some 1) ''id-2'' 2000
        (processWallet_resume (LookupOk 0) (fst (processWallet_begin 100 (1 / 2) plain_wallet peak_state)))
        (snd (processWallet_begin 100 (1 / 2) plain_wallet peak_state)))) = ''6.8500''
   \<and> discovered (snd (processWallet 100 (Some 1) (1 / 2) (LookupOk 0) ''id-2'' 2000 plain_wallet
        peak_state))
       = [fst (processWallet 100 (Some 1) (1 / 2) (LookupOk 0) ''id-2'' 2000 plain_wallet peak_state)]
   \<and> wallets (snd (processWallet 100 (Some 1) (1 / 2) (LookupOk 0) ''id-2'' 2000 plain_wallet
        peak_state)) = []"
proof -
  have h: "(0::real) \<le> 1 / 2" "(1 / 2 ::real) < 1" by simp_all
  note t = forced_hit_never_ordinary [OF h refl peak_forced(1), where cid = "Some 1"
      and uuid = "''id-2''" and now = 2000 and res = "LookupOk 0"
      and t = "snd (processWallet_begin 100 (1 / 2) plain_wallet peak_state)"]
  note b = t [THEN conjunct2, THEN conjunct1]
  note d = t [THEN conjunct2, THEN conjunct2, THEN conjunct2, THEN conjunct1]
  note w = t [THEN conjunct2, THEN conjunct2, THEN conjunct2, THEN conjunct2]
  from b have b': "balance (fst (processWallet_finish (Some 1) ''id-2'' 2000
        (processWallet_resume (LookupOk 0) (fst (processWallet_begin 100 (1 / 2) plain_wallet peak_state)))
        (snd (processWallet_begin 100 (1 / 2) plain_wallet peak_state)))) = ''6.8500''"
    by (simp only: synthetic_half)
  from d have d': "discovered (snd (processWallet 100 (Some 1) (1 / 2) (LookupOk 0) ''id-2'' 2000 plain_wallet
        peak_state))
       = [fst (processWallet 100 (Some 1) (1 / 2) (LookupOk 0) ''id-2'' 2000 plain_wallet peak_state)]"
    by (simp only: peak_cells)
  from w have w': "wallets (snd (processWallet 100 (Some 1) (1 / 2) (LookupOk 0) ''id-2'' 2000 plain_wallet
        peak_state)) = []"
    by (simp only: peak_cells)
  show ?thesis
    by (intro conjI) (rule peak_forced(1) b' d' w')+
qed

theorem forced_hit_zero_lookup_counterexample:
  "balance (fst (processWallet 100 (Some 1) (1 / 2) (LookupOk 0) ''id-2'' 2000 plain_wallet
                   peak_state)) = ''6.8500''
   \<and> discovered (snd (processWallet 100 (Some 1) (1 / 2) (LookupOk 0) ''id-2'' 2000 plain_wallet
                   peak_state))
       = [fst (processWallet 100 (Some 1) (1 / 2) (LookupOk 0) ''id-2'' 2000 plain_wallet peak_state)]
   \<and> wallets (snd (processWallet 100 (Some 1) (1 / 2) (LookupOk 0) ''id-2'' 2000 plain_wallet
                   peak_state)) = []
   \<and> \<not> (\<exists>qc rnd w s cid uuid now.
           0 \<le> rnd \<and> rnd < 1 \<and> p_forcedHit (fst (processWallet_begin qc rnd w s))
           \<and> (\<not> gt_zero (parseFloat (balance (fst (processWallet qc cid rnd (LookupOk 0) uuid now w s))))
                \<or> discovered (snd (processWallet qc cid rnd (LookupOk 0) uuid now w s)) = discovered s))"
proof -
  have h: "(0::real) \<le> 1 / 2" "(1 / 2 ::real) < 1" by simp_all
  have b: "balance (fst (processWallet 100 (Some 1) (1 / 2) (LookupOk 0) ''id-2'' 2000 plain_wallet
                   peak_state)) = ''6.8500''"
    by (simp add: processWallet_unfold peak_forced finish_entry entry_fields resume_balance)
  have d: "discovered (snd (processWallet 100 (Some 1) (1 / 2) (LookupOk 0) ''id-2'' 2000 plain_wallet
                   peak_state))
       = [fst (processWallet 100 (Some 1) (1 / 2) (LookupOk 0) ''id-2'' 2000 plain_wallet peak_state)]"
    using forced_call_discovered(2) [OF h peak_forced(1), of "Some 1" "LookupOk 0" "''id-2''" 2000]
    by (simp only: peak_cells)
  have w: "wallets (snd (processWallet 100 (Some 1) (1 / 2) (LookupOk 0) ''id-2'' 2000 plain_wallet
                   peak_state)) = []"
    using forced_call_discovered(3) [OF h peak_forced(1), of "Some 1" "LookupOk 0" "''id-2''" 2000]
    by (simp only: peak_cells)
  have n: "\<not> (\<exists>qc rnd w s cid uuid now.
           0 \<le> rnd \<and> rnd < 1 \<and> p_forcedHit (fst (processWallet_begin qc rnd w s))
           \<and> (\<not> gt_zero (parseFloat (balance (fst (processWallet qc cid rnd (LookupOk 0) uuid now w s))))
                \<or> discovered (snd (processWallet qc cid rnd (LookupOk 0) uuid now w s)) = discovered s))"
  proof
    assume "\<exists>qc rnd w s cid uuid now.
           0 \<le> rnd \<and> rnd < 1 \<and> p_forcedHit (fst (processWallet_begin qc rnd w s))
           \<and> (\<not> gt_zero (parseFloat (balance (fst (processWallet qc cid rnd (LookupOk 0) uuid now w s))))
                \<or> discovered (snd (processWallet qc cid rnd (LookupOk 0) uuid now w s)) = discovered s)"
    then obtain qc rnd w s cid uuid now where r: "0 \<le> rnd" "rnd < 1"
      and f: "p_forcedHit (fst (processWallet_begin qc rnd w s))"
      and c: "\<not> gt_zero (parseFloat (balance (fst (processWallet qc cid rnd (LookupOk 0) uuid now w s))))
                \<or> discovered (snd (processWallet qc cid rnd (LookupOk 0) uuid now w s)) = discovered s"
      by (elim exE conjE)
    note g = forced_call_discovered(1,2) [OF r f, of cid "LookupOk 0" uuid now]
    from c show False
    proof
      assume "\<not> gt_zero (parseFloat (balance (fst (processWallet qc cid rnd (LookupOk 0) uuid now w s))))"
      with g(1) show False by (rule notE [rotated])
    next
      assume "discovered (snd (processWallet qc cid rnd (LookupOk 0) uuid now w s)) = discovered s"
      with g(2) have "fst (processWallet qc cid rnd (LookupOk 0) uuid now w s) # discovered s = discovered s"
        by simp
      then show False by simp
    qed
  qed
  show ?thesis
    by (intro conjI) (rule b d w n)+
qed

text \<open>
  Claim C4. With every \<open>Math.random()\<close> draw of the tick in \<open>[0,1)\<close>, the calibration
  value of every reachable state lies in \<open>[0,100]\<close>. A tick adds a non-negative
  increment and clamps at 100 while a scan is active and changes nothing otherwise. The
  value decreases only in a step that records a discovery, and every step that records
  one leaves it at exactly 0. A forced hit takes the lock, and while the lock is held and
  no discovery has been recorded, the lock stays held and none of the calls left waiting
  for a lookup is a forced hit.
\<close>

theorem calibration_invariant:
  assumes ticks: "list_all tick_ok es" and tick: "tick_ok e"
    and s: "s = run es initial" and s': "s' = snd (handle e s)"
  shows "0 \<le> quantumCalibration s \<and> quantumCalibration s \<le> 100
     \<and> 0 \<le> quantumCalibration s' \<and> quantumCalibration s' \<le> 100
     \<and> (\<forall>rnd. e = StatsTick rnd \<longrightarrow>
           quantumCalibration s'
             = (if isScanning s
                then min 100 (quantumCalibration s + rnd * (if luckActive s then 9 / 2 else 4 / 5))
                else quantumCalibration s)
           \<and> quantumCalibration s \<le> quantumCalibration s')
     \<and> (quantumCalibration s' < quantumCalibration s
           \<longrightarrow> quantumCalibration s' = 0 \<and> discovered s' \<noteq> discovered s)
     \<and> (discovered s' \<noteq> discovered s \<longrightarrow> quantumCalibration s' = 0)
     \<and> (\<forall>qc rnd w t. p_forcedHit (fst (processWallet_begin qc rnd w t))
           \<longrightarrow> \<not> discoveryLockRef t \<and> discoveryLockRef (snd (processWallet_begin qc rnd w t)))
     \<and> (\<forall>t es'. discoveryLockRef t \<and> discovered (run es' t) = discovered t
           \<longrightarrow> discoveryLockRef (run es' t)
               \<and> (\<forall>p. AwaitBalance p \<in> set (issued es' t) \<longrightarrow> \<not> p_forcedHit p))"
proof -
  have r: "0 \<le> quantumCalibration s \<and> quantumCalibration s \<le> 100"
    unfolding s by (rule run_cal_range [OF ticks]) (simp_all add: initial_def)
  then have r': "0 \<le> quantumCalibration s' \<and> quantumCalibration s' \<le> 100"
    unfolding s' using handle_cal_range [OF tick] by blast
  have t: "\<forall>rnd. e = StatsTick rnd \<longrightarrow>
           quantumCalibration s'
             = (if isScanning s
                then min 100 (quantumCalibration s + rnd * (if luckActive s then 9 / 2 else 4 / 5))
                else quantumCalibration s)
           \<and> quantumCalibration s \<le> quantumCalibration s'"
  proof (intro allI impI)
    fix rnd
    assume e: "e = StatsTick rnd"
    with tick have "0 \<le> rnd" by simp
    from calibration_step_range(1) [OF this, of "quantumCalibration s" "luckActive s"] r
    show "quantumCalibration s'
             = (if isScanning s
                then min 100 (quantumCalibration s + rnd * (if luckActive s then 9 / 2 else 4 / 5))
                else quantumCalibration s)
           \<and> quantumCalibration s \<le> quantumCalibration s'"
      by (simp add: s' e tick_cells calibration_step_min)
  qed
  have d: "discovered s' \<noteq> discovered s \<longrightarrow> quantumCalibration s' = 0"
    unfolding s' by (simp add: handle_cal del: handle.simps)
  have dec: "quantumCalibration s' < quantumCalibration s
           \<longrightarrow> quantumCalibration s' = 0 \<and> discovered s' \<noteq> discovered s"
  proof
    assume lt: "quantumCalibration s' < quantumCalibration s"
    have "discovered s' \<noteq> discovered s"
    proof
      assume same: "discovered s' = discovered s"
      show False
      proof (cases "\<exists>rnd. e = StatsTick rnd")
        case True
        with t lt show False by auto
      next
        case False
        then have "quantumCalibration s' = quantumCalibration s"
          using same handle_cal [of e s] unfolding s' by (cases e) (simp_all del: handle.simps)
        with lt show False by simp
      qed
    qed
    with d show "quantumCalibration s' = 0 \<and> discovered s' \<noteq> discovered s" by simp
  qed
  have f: "\<forall>qc rnd w t. p_forcedHit (fst (processWallet_begin qc rnd w t))
           \<longrightarrow> \<not> discoveryLockRef t \<and> discoveryLockRef (snd (processWallet_begin qc rnd w t))"
    by (simp add: begin_fields begin_cells)
  have l: "\<forall>t es'. discoveryLockRef t \<and> discovered (run es' t) = discovered t
           \<longrightarrow> discoveryLockRef (run es' t)
               \<and> (\<forall>p. AwaitBalance p \<in> set (issued es' t) \<longrightarrow> \<not> p_forcedHit p)"
    using run_lock by blast
  from r r' t dec d f l show ?thesis by blast
qed

theorem calibration_invariant_witness:
  "list_all tick_ok [ToggleScan 0 0 None (\<lambda>i. example_draw) 0, StatsTick (1 / 2)]
   \<and> tick_ok (StatsTick (1 / 4))
   \<and> quantumCalibration (run [ToggleScan 0 0 None (\<lambda>i. example_draw) 0, StatsTick (1 / 2)] initial)
       = 2 / 5
   \<and> quantumCalibration (snd (handle (StatsTick (1 / 4))
        (run [ToggleScan 0 0 None (\<lambda>i. example_draw) 0, StatsTick (1 / 2)] initial))) = 3 / 5"
proof -
  define s where "s = run [ToggleScan 0 0 None (\<lambda>i. example_draw) 0, StatsTick (1 / 2)] initial"
  define s' where "s' = snd (handle (StatsTick (1 / 4)) s)"
  have ok: "list_all tick_ok [ToggleScan 0 0 None (\<lambda>i. example_draw) 0, StatsTick (1 / 2)]"
    "tick_ok (StatsTick (1 / 4))" by simp_all
  have st: "isScanning s" "\<not> luckActive s" "quantumCalibration s = 2 / 5"
    by (simp_all add: s_def toggleScan_def startScanLoop_begin_def stats_tick_def
          calibration_step_def initial_def Let_def)
  have "\<forall>rnd. StatsTick (1 / 4) = StatsTick rnd \<longrightarrow>
           quantumCalibration s'
             = (if isScanning s
                then min 100 (quantumCalibration s + rnd * (if luckActive s then 9 / 2 else 4 / 5))
                else quantumCalibration s)
           \<and> quantumCalibration s \<le> quantumCalibration s'"
    using calibration_invariant [OF ok s_def s'_def] by blast
  then have "quantumCalibration s'
             = (if isScanning s
                then min 100 (quantumCalibration s + 1 / 4 * (if luckActive s then 9 / 2 else 4 / 5))
                else quantumCalibration s)"
    by blast
  with st have "quantumCalibration s' = 3 / 5" by simp
  with st(3) ok show ?thesis unfolding s'_def s_def by blast
qed

text \<open>
  Claim C5, amended. A stop request clears the session flags, starts nothing, leaves both
  lists as they are and cancels the armed timer of the next round. From then on a round
  that still starts returns at once, no timer is armed again, and every event other than
  the scan button and the settling of a balance lookup leaves both lists unchanged. A
  call that is waiting for its lookup is not discarded: when the lookup settles, in any
  state, its record is prepended to one of the lists with the timestamp of that moment.
  So the claim as written fails: the counterexample stops a session at time 1500 and gets
  a record with timestamp 2000.
\<close>

theorem stop_ends_rounds_not_lookups:
  assumes scanning: "isScanning s" and s1: "s1 = snd (toggleScan thr qc cid gen now s)"
  shows "fst (toggleScan thr qc cid gen now s) = []
     \<and> \<not> isScanning s1 \<and> \<not> isScanningRef s1
     \<and> wallets s1 = wallets s \<and> discovered s1 = discovered s
     \<and> (scanLoopRef s = Some h \<and> h \<noteq> 0
           \<longrightarrow> h \<notin> set (timers s1) \<and> handle (ScanTimer h thr' qc' cid' gen') s1 = ([], s1))
     \<and> (\<not> isScanningRef t
           \<longrightarrow> startScanLoop_begin thr' qc' cid' gen' t = ([], t) \<and> startScanLoop_end h' t = t)
     \<and> (list_all quiet es
           \<longrightarrow> \<not> isScanningRef (run es s1) \<and> wallets (run es s1) = wallets s1
               \<and> discovered (run es s1) = discovered s1)
     \<and> (fst (handle (LookupSettled res cid' uuid now' p) t) = []
         \<and> timestamp (make_entry cid' uuid now' (processWallet_resume res p)) = now'
         \<and> (discovered (snd (handle (LookupSettled res cid' uuid now' p) t))
               = make_entry cid' uuid now' (processWallet_resume res p) # discovered t
             \<or> wallets (snd (handle (LookupSettled res cid' uuid now' p) t))
               = take 15 (make_entry cid' uuid now' (processWallet_resume res p) # wallets t)))"
proof -
  have a: "fst (toggleScan thr qc cid gen now s) = []"
    and b: "\<not> isScanning s1" and c: "\<not> isScanningRef s1"
    and d: "wallets s1 = wallets s" and e: "discovered s1 = discovered s"
    using scanning by (simp_all add: s1 toggle_stop)
  have f: "scanLoopRef s = Some h \<and> h \<noteq> 0
           \<longrightarrow> h \<notin> set (timers s1) \<and> handle (ScanTimer h thr' qc' cid' gen') s1 = ([], s1)"
  proof
    assume "scanLoopRef s = Some h \<and> h \<noteq> 0"
    then have n: "h \<notin> set (timers s1)" using scanning by (simp add: s1 toggle_stop)
    from n timer_idle [OF n] show "h \<notin> set (timers s1) \<and> handle (ScanTimer h thr' qc' cid' gen') s1 = ([], s1)"
      by (rule conjI)
  qed
  have g: "\<not> isScanningRef t
           \<longrightarrow> startScanLoop_begin thr' qc' cid' gen' t = ([], t) \<and> startScanLoop_end h' t = t"
    by (simp add: round_idle startScanLoop_end_def)
  have q: "list_all quiet es
           \<longrightarrow> \<not> isScanningRef (run es s1) \<and> wallets (run es s1) = wallets s1
               \<and> discovered (run es s1) = discovered s1"
    using run_quiet [OF c] by (rule impI)
  note l = settle_appends [of res cid' uuid now' p t]
  show ?thesis
    by (intro conjI) (rule a b c d e f g q l [THEN conjunct1] l [THEN conjunct2, THEN conjunct1]
          l [THEN conjunct2, THEN conjunct2])+
qed

theorem stop_ends_rounds_not_lookups_witness:
  "isScanning (snd (handle (ToggleScan 1 100 (Some 1) (\<lambda>i. example_draw) 1000) peak_state))
   \<and> \<not> isScanningRef (run stopped_session peak_state)
   \<and> discovered (run stopped_session peak_state) = []
   \<and> wallets (run ([BatchSettled 1, ScanTimer 1 1 100 (Some 1) (\<lambda>i. example_draw), StatsTick (1 / 2)])
        (run stopped_session peak_state)) = []"
proof -
  have sc: "isScanning (snd (handle (ToggleScan 1 100 (Some 1) (\<lambda>i. example_draw) 1000) peak_state))"
    by code_simp
  have r: "run stopped_session peak_state
        = snd (toggleScan 1 100 (Some 1) (\<lambda>i. example_draw) 1500
            (snd (handle (ToggleScan 1 100 (Some 1) (\<lambda>i. example_draw) 1000) peak_state)))"
    by (simp add: stopped_session_def)
  note t = stop_ends_rounds_not_lookups [OF sc r,
      where es = "[BatchSettled 1, ScanTimer 1 1 100 (Some 1) (\<lambda>i. example_draw), StatsTick (1 / 2)]"]
  note c = t [THEN conjunct2, THEN conjunct2, THEN conjunct1]
  note q = t [THEN conjunct2, THEN conjunct2, THEN conjunct2, THEN conjunct2, THEN conjunct2,
      THEN conjunct2, THEN conjunct2, THEN conjunct1]
  have "list_all quiet [BatchSettled 1, ScanTimer 1 1 100 (Some 1) (\<lambda>i. example_draw), StatsTick (1 / 2)]"
    by simp
  with q have w: "wallets (run ([BatchSettled 1, ScanTimer 1 1 100 (Some 1) (\<lambda>i. example_draw), StatsTick (1 / 2)])
        (run stopped_session peak_state)) = wallets (run stopped_session peak_state)"
    by (elim impE conjE) assumption+
  then have w': "wallets (run ([BatchSettled 1, ScanTimer 1 1 100 (Some 1) (\<lambda>i. example_draw), StatsTick (1 / 2)])
        (run stopped_session peak_state)) = []"
    by (simp only: stopped_cells)
  show ?thesis
    by (intro conjI) (rule sc c stopped_cells(3) w')+
qed

theorem record_after_stop_counterexample:
  "fst (handle (ToggleScan 1 100 (Some 1) (\<lambda>i. example_draw) 1000) peak_state)
     = [AwaitBalance forced_pending, FetchReport 100 False]
   \<and> \<not> isScanning (run stopped_session peak_state)
   \<and> \<not> isScanningRef (run stopped_session peak_state)
   \<and> discovered (run stopped_session peak_state) = []
   \<and> map timestamp (discovered (run (stopped_session
        @ [LookupSettled (LookupOk 0) (Some 1) ''id-9'' 2000 forced_pending]) peak_state)) = [2000]
   \<and> (1500::int) < 2000"
proof -
  have lt: "(1500::int) < 2000" by simp
  show ?thesis
    by (intro conjI) (rule start_effects stopped_cells late_record lt)+
qed




text \<open>
  Claim C7. When a connectivity poll faults, the status becomes disconnected with no
  latency, while block number, chain id, endpoint and gas price keep their last known
  values and no other cell changes; when it succeeds, the status is replaced as a whole by
  connected and the fresh values, none of which depends on the status before.
\<close>

theorem checkNode_status:
  "connected (nodeStatus (checkNode url t PollFault s)) = False
   \<and> latency (nodeStatus (checkNode url t PollFault s)) = None
   \<and> blockNumber (nodeStatus (checkNode url t PollFault s)) = blockNumber (nodeStatus s)
   \<and> chainId (nodeStatus (checkNode url t PollFault s)) = chainId (nodeStatus s)
   \<and> rpcUrl (nodeStatus (checkNode url t PollFault s)) = rpcUrl (nodeStatus s)
   \<and> gasPrice (nodeStatus (checkNode url t PollFault s)) = gasPrice (nodeStatus s)
   \<and> checkNode url t PollFault s
        = s\<lparr>nodeStatus := (nodeStatus s)\<lparr>connected := False, latency := None\<rparr>\<rparr>
   \<and> nodeStatus (checkNode url t (PollOk blockNo cid fee) s)
        = \<lparr>connected = True, blockNumber = Some blockNo, latency = Some \<lfloor>t + 1 / 2\<rfloor>,
           rpcUrl = url, chainId = Some cid,
           gasPrice = (case fee of None \<Rightarrow> None
                       | Some g \<Rightarrow> if g = 0 then None else Some (formatUnits g 9))\<rparr>"
  by (simp add: checkNode_def)

theorem checkNode_status_witness:
  "nodeStatus (checkNode ''https://eth.llamarpc.com'' 15000 PollFault polled_state)
     = \<lparr>connected = False, blockNumber = Some 19000000, latency = None,
        rpcUrl = ''https://eth.llamarpc.com'', chainId = Some 1, gasPrice = Some ''30.0''\<rparr>"
proof -
  have "checkNode ''https://eth.llamarpc.com'' 15000 PollFault polled_state
        = polled_state\<lparr>nodeStatus := (nodeStatus polled_state)\<lparr>connected := False, latency := None\<rparr>\<rparr>"
    using checkNode_status [of "''https://eth.llamarpc.com''" 15000 polled_state] by blast
  then show ?thesis by (simp add: polled_status)
qed

text \<open>
  Claim C8. Every insertion prepends: a discovery goes to the head of the discoveries list,
  which is never trimmed, so it grows by one each time and reaches any length; an ordinary
  sighting goes to the head of the ordinary list, which is cut to 15 entries on that very
  insertion. Whatever sequence of events runs, the ordinary list never has more than 15
  entries.
\<close>

theorem result_lists_shape:
  "(if gt_zero (parseFloat (p_balance p)) \<or> p_isTargetMatch p
    then discovered (snd (processWallet_finish cid uuid now p s))
           = fst (processWallet_finish cid uuid now p s) # discovered s
         \<and> wallets (snd (processWallet_finish cid uuid now p s)) = wallets s
    else wallets (snd (processWallet_finish cid uuid now p s))
           = fst (processWallet_finish cid uuid now p s) # take 14 (wallets s)
         \<and> length (wallets (snd (processWallet_finish cid uuid now p s)))
             = min 15 (Suc (length (wallets s)))
         \<and> discovered (snd (processWallet_finish cid uuid now p s)) = discovered s)
   \<and> (length (wallets s) \<le> 15 \<longrightarrow> length (wallets (run es s)) \<le> 15)
   \<and> length (wallets (run es initial)) \<le> 15
   \<and> (p_isTargetMatch p \<longrightarrow>
        length (discovered (run (replicate n (LookupSettled res cid uuid now p)) s))
          = length (discovered s) + n)"
proof -
  have "length (wallets (run es initial)) \<le> 15"
    by (rule run_cap) (simp add: initial_def)
  then show ?thesis
    by (simp add: finish_lists finish_entry run_cap settle_discovery_count min.commute)
qed

theorem result_lists_shape_witness:
  "p_isTargetMatch (fst (processWallet_begin 0 0 vb2_wallet initial))
   \<and> length (discovered (run (replicate 20 (LookupSettled LookupFault None ''id-1'' 1000
         (fst (processWallet_begin 0 0 vb2_wallet initial)))) initial)) = 20
   \<and> length (wallets (run (replicate 20 (LookupSettled LookupFault None ''id-3'' 1000
         (fst (processWallet_begin 0 0 plain_wallet initial)))) initial)) \<le> 15"
proof -
  have m: "p_isTargetMatch (fst (processWallet_begin 0 0 vb2_wallet initial))"
    by (simp add: begin_fields vb2_match)
  have i: "length (wallets initial) \<le> 15" "length (discovered initial) = 0"
    by (simp_all add: initial_def)
  from m i show ?thesis
    using result_lists_shape [where p = "fst (processWallet_begin 0 0 vb2_wallet initial)"
        and s = initial and n = 20 and res = LookupFault and cid = None and uuid = "''id-1''"
        and now = 1000
        and es = "replicate 20 (LookupSettled LookupFault None ''id-3'' 1000
         (fst (processWallet_begin 0 0 plain_wallet initial)))"]
    by simp
qed

text \<open>
  Claim C9. When a report fetch faults, because the text-generation call fails or because
  its response does not parse, the stored report is unchanged and nothing is started, so
  no retry; and a handler starts a report fetch exactly when it is the scan button starting
  a session or the boost button.
\<close>

theorem report_fault_keeps_report:
  "(service (''QUANTUM ENGINE PEAK LOG: '' @ ctx) = Throws
     \<or> (\<exists>text. service (''QUANTUM ENGINE PEAK LOG: '' @ ctx) = Returns text
               \<and> JSON_parse text = Throws)
    \<longrightarrow> handle (ReportSettled (auditWalletSetup service JSON_parse ctx)) s = ([], s))
   \<and> (FetchReport q l \<in> set (fst (handle e s))
        \<longleftrightarrow> ((\<exists>thr qc cid gen now. e = ToggleScan thr qc cid gen now) \<and> \<not> isScanning s
              \<or> e = LuckPulse)
            \<and> q = quantumCalibration s \<and> l = luckActive s)"
proof -
  have "service (''QUANTUM ENGINE PEAK LOG: '' @ ctx) = Throws
     \<or> (\<exists>text. service (''QUANTUM ENGINE PEAK LOG: '' @ ctx) = Returns text
               \<and> JSON_parse text = Throws)
    \<Longrightarrow> auditWalletSetup service JSON_parse ctx = Throws"
    by (auto simp: auditWalletSetup_def)
  then show ?thesis
    by (auto simp: handle_fetches runAnalysis_settle_def)
qed

theorem report_fault_keeps_report_witness:
  "probabilityData reported_state = Some example_report
   \<and> handle (ReportSettled (auditWalletSetup (\<lambda>request. Throws) (\<lambda>text. Throws) ''CALIBRATION: 100%''))
        reported_state = ([], reported_state)
   \<and> handle (ReportSettled (auditWalletSetup (\<lambda>request. Returns ''<html>'') (\<lambda>text. Throws)
        ''CALIBRATION: 100%'')) reported_state = ([], reported_state)"
proof -
  have a: "handle (ReportSettled (auditWalletSetup (\<lambda>request. Throws) (\<lambda>text. Throws) ''CALIBRATION: 100%''))
        reported_state = ([], reported_state)"
    using report_fault_keeps_report [where service = "\<lambda>request. Throws"
        and JSON_parse = "\<lambda>text. Throws" and ctx = "''CALIBRATION: 100%''"
        and s = reported_state]
    by simp
  have b: "handle (ReportSettled (auditWalletSetup (\<lambda>request. Returns ''<html>'') (\<lambda>text. Throws)
        ''CALIBRATION: 100%'')) reported_state = ([], reported_state)"
    using report_fault_keeps_report [where service = "\<lambda>request. Returns ''<html>''"
        and JSON_parse = "\<lambda>text. Throws" and ctx = "''CALIBRATION: 100%''"
        and s = reported_state]
    by simp
  have "probabilityData reported_state = Some example_report"
    by (simp add: reported_state_def runAnalysis_settle_def)
  with a b show ?thesis by simp
qed

text \<open>
  Claim C10, amended. With the draw of \<open>Math.random()\<close> in \<open>[0,1)\<close>, the balance of every
  generated record, whichever of the three paths produced it, is a decimal string without
  a sign whose value is not negative. With a clock that never goes back, that is when
  the readings of \<open>Date.now()\<close> that stamp the records never decrease in the order they
  are made, the timestamps of the ordinary-sightings list of every reachable state never
  increase when the list is read newest first, which is to say they never decrease read
  from the oldest record. As the claim is written, non-decreasing read newest first, it
  fails after two rounds.
\<close>

theorem record_balance_and_order:
  assumes r0: "0 \<le> rnd" and r1: "rnd < 1"
    and pb: "pb = fst (processWallet_begin qc rnd w s)"
    and q: "q = pb \<or> q = processWallet_resume res pb"
    and clock: "sorted (run_stamps es initial)"
  shows "is_decimal_string (balance (fst (processWallet_finish cid uuid now q t)))
     \<and> (\<exists>v. parseFloat (balance (fst (processWallet_finish cid uuid now q t))) = Some v \<and> 0 \<le> v)
     \<and> newest_first (wallets (run es initial))
     \<and> sorted (rev (map timestamp (wallets (run es initial))))"
proof -
  note g = generated_balance [OF r0 r1 pb q]
  have a: "is_decimal_string (balance (fst (processWallet_finish cid uuid now q t)))"
    using g(1) by (simp add: finish_entry entry_fields)
  have b: "\<exists>v. parseFloat (balance (fst (processWallet_finish cid uuid now q t))) = Some v \<and> 0 \<le> v"
    using g(2) by (simp add: finish_entry entry_fields)
  have c: "newest_first (wallets (run es initial))"
    by (rule run_newest_first [OF _ _ clock])
       (simp_all add: initial_def newest_first_def stamps_before_def)
  then have "sorted_wrt (\<lambda>a b. b \<le> a) (map timestamp (wallets (run es initial)))"
    by (simp add: newest_first_def sorted_wrt_map)
  then have d: "sorted (rev (map timestamp (wallets (run es initial))))"
    by (simp add: sorted_wrt_rev)
  show ?thesis
    by (intro conjI) (rule a b c d)+
qed

theorem record_balance_and_order_witness:
  "sorted (run_stamps two_rounds initial)
   \<and> newest_first (wallets (run two_rounds initial))
   \<and> map timestamp (wallets (run two_rounds initial)) = [2000, 1000]
   \<and> is_decimal_string (balance (fst (processWallet_finish None ''id-3'' 1000
        (fst (processWallet_begin 0 (1 / 2) plain_wallet initial)) initial)))"
proof -
  have h: "(0::real) \<le> 1 / 2" "(1 / 2 ::real) < 1" by simp_all
  have c: "sorted (run_stamps two_rounds initial)"
    by (simp add: two_rounds_times)
  note t = record_balance_and_order [OF h refl disjI1 [OF refl] c, where qc = 0 and w = plain_wallet
      and s = initial and cid = None and uuid = "''id-3''" and now = 1000 and t = initial]
  note a = t [THEN conjunct1]
  note n = t [THEN conjunct2, THEN conjunct2, THEN conjunct1]
  show ?thesis
    by (intro conjI) (rule c n two_rounds_stamps a)+
qed

theorem timestamps_newest_first_counterexample:
  "sorted (run_stamps two_rounds initial)
   \<and> map timestamp (wallets (run two_rounds initial)) = [2000, 1000]
   \<and> \<not> sorted (map timestamp (wallets (run two_rounds initial)))"
proof -
  have c: "sorted (run_stamps two_rounds initial)"
    by (simp add: two_rounds_times)
  have n: "\<not> sorted (map timestamp (wallets (run two_rounds initial)))"
    by (simp add: two_rounds_stamps)
  show ?thesis
    by (intro conjI) (rule c two_rounds_stamps n)+
qed

end
